theory Spec2Isabelle
  imports Main
begin

section \<open>Python strings\<close>

text \<open>
  A Python \<open>str\<close> is a sequence of Unicode code points. The tree connectors of
  \<open>TREE_CHARS\<close> lie outside ASCII, so a string is modelled as the list of its code
  points and not as a list of bytes.
\<close>

type_synonym pystr = "nat list"

definition ascii :: "string \<Rightarrow> pystr" where
  "ascii s = map of_char s"

datatype py_error = IndexError | ValueError

text \<open>
  The four characters of \<open>TREE_CHARS\<close>: the vertical bar U+2502, the tee U+251C, the
  elbow U+2514 and the horizontal bar U+2500.
\<close>

definition BOX_V :: nat where "BOX_V = 0x2502"
definition BOX_T :: nat where "BOX_T = 0x251C"
definition BOX_L :: nat where "BOX_L = 0x2514"
definition BOX_H :: nat where "BOX_H = 0x2500"

definition TREE_CHARS :: pystr where
  "TREE_CHARS = [BOX_V, BOX_T, BOX_L, BOX_H]"

definition SLASH :: nat where "SLASH = 47"
definition SPACE :: nat where "SPACE = 32"
definition HASH :: nat where "HASH = 35"
definition BACKSLASH :: nat where "BACKSLASH = 92"
definition NEWLINE :: nat where "NEWLINE = 10"
definition BACKTICK :: nat where "BACKTICK = 96"

text \<open>
  \<open>str.isspace\<close>, which is also what \<open>str.strip()\<close>, \<open>str.split()\<close> and the regular
  expression class \<open>\s\<close> use on a \<open>str\<close>.
\<close>

definition is_space :: "nat \<Rightarrow> bool" where
  "is_space c \<longleftrightarrow>
     (9 \<le> c \<and> c \<le> 13) \<or> (28 \<le> c \<and> c \<le> 32) \<or> c = 0x85 \<or> c = 0xA0 \<or> c = 0x1680
     \<or> (0x2000 \<le> c \<and> c \<le> 0x200A) \<or> c = 0x2028 \<or> c = 0x2029 \<or> c = 0x202F
     \<or> c = 0x205F \<or> c = 0x3000"

definition lstrip_by :: "(nat \<Rightarrow> bool) \<Rightarrow> pystr \<Rightarrow> pystr" where
  "lstrip_by P s = dropWhile P s"

definition rstrip_by :: "(nat \<Rightarrow> bool) \<Rightarrow> pystr \<Rightarrow> pystr" where
  "rstrip_by P s = rev (dropWhile P (rev s))"

definition strip_by :: "(nat \<Rightarrow> bool) \<Rightarrow> pystr \<Rightarrow> pystr" where
  "strip_by P s = rstrip_by P (lstrip_by P s)"

text \<open>\<open>s.strip()\<close>, \<open>s.strip(chars)\<close> and \<open>s.rstrip(chars)\<close>.\<close>

definition strip :: "pystr \<Rightarrow> pystr" where
  "strip s = strip_by is_space s"

definition strip_chars :: "pystr \<Rightarrow> pystr \<Rightarrow> pystr" where
  "strip_chars cs s = strip_by (\<lambda>c. c \<in> set cs) s"

definition rstrip_chars :: "pystr \<Rightarrow> pystr \<Rightarrow> pystr" where
  "rstrip_chars cs s = rstrip_by (\<lambda>c. c \<in> set cs) s"

text \<open>\<open>s.split()\<close>: the maximal runs of non-whitespace, with the token being read in \<open>cur\<close>.\<close>

fun split_acc :: "pystr \<Rightarrow> pystr \<Rightarrow> pystr list" where
  "split_acc cur [] = (if cur = [] then [] else [cur])"
| "split_acc cur (c # cs) =
     (if is_space c then (if cur = [] then split_acc [] cs else cur # split_acc [] cs)
      else split_acc (cur @ [c]) cs)"

definition split_ws :: "pystr \<Rightarrow> pystr list" where
  "split_ws s = split_acc [] s"

text \<open>\<open>s.split(sep)\<close> for a one-character separator: never empty, keeps empty fields.\<close>

fun split_on :: "nat \<Rightarrow> pystr \<Rightarrow> pystr list" where
  "split_on c [] = [[]]"
| "split_on c (x # xs) =
     (if x = c then [] # split_on c xs
      else (case split_on c xs of [] \<Rightarrow> [[x]] | t # ts \<Rightarrow> (x # t) # ts))"

text \<open>\<open>sep.join(xs)\<close>.\<close>

fun str_join :: "pystr \<Rightarrow> pystr list \<Rightarrow> pystr" where
  "str_join s [] = []"
| "str_join s [x] = x"
| "str_join s (x # y # ys) = x @ s @ str_join s (y # ys)"

definition startswith :: "pystr \<Rightarrow> pystr \<Rightarrow> bool" where
  "startswith s p \<longleftrightarrow> take (length p) s = p"

definition endswith :: "pystr \<Rightarrow> pystr \<Rightarrow> bool" where
  "endswith s p \<longleftrightarrow> length p \<le> length s \<and> drop (length s - length p) s = p"

text \<open>\<open>xs.index(x)\<close>: the position of the first element equal to \<open>x\<close>.\<close>

definition py_index :: "'a list \<Rightarrow> 'a \<Rightarrow> py_error + nat" where
  "py_index xs x =
     (if x \<in> set xs then Inr (length (takeWhile (\<lambda>y. y \<noteq> x) xs)) else Inl ValueError)"

section \<open>Paths (\<open>pathlib\<close> on a POSIX system)\<close>

text \<open>
  A \<open>pathlib.Path\<close> is its parsed form: the root (empty, one slash, or two slashes) and
  the list of components. Parsing drops empty components and \<open>.\<close> and keeps \<open>..\<close>.
\<close>

record path =
  p_root :: pystr
  p_parts :: "pystr list"

definition splitroot :: "pystr \<Rightarrow> pystr \<times> pystr" where
  "splitroot p =
     (if take 1 p \<noteq> [SLASH] then ([], p)
      else if take 1 (drop 1 p) \<noteq> [SLASH] \<or> take 1 (drop 2 p) = [SLASH] then ([SLASH], drop 1 p)
      else (take 2 p, drop 2 p))"

definition Path :: "pystr \<Rightarrow> path" where
  "Path s =
     (if s = [] then \<lparr>p_root = [], p_parts = []\<rparr>
      else (case splitroot s of (r, rel) \<Rightarrow>
        \<lparr>p_root = r, p_parts = filter (\<lambda>x. x \<noteq> [] \<and> x \<noteq> ascii ''.'') (split_on SLASH rel)\<rparr>))"

text \<open>\<open>p / q\<close>: an absolute right operand replaces the left one.\<close>

definition joinpath :: "path \<Rightarrow> path \<Rightarrow> path" where
  "joinpath p q =
     (if p_root q \<noteq> [] then q else \<lparr>p_root = p_root p, p_parts = p_parts p @ p_parts q\<rparr>)"

definition path_str :: "path \<Rightarrow> pystr" where
  "path_str p =
     (if p_root p \<noteq> [] then p_root p @ str_join [SLASH] (p_parts p)
      else if p_parts p = [] then ascii ''.'' else str_join [SLASH] (p_parts p))"

definition parent :: "path \<Rightarrow> path" where
  "parent p = \<lparr>p_root = p_root p, p_parts = butlast (p_parts p)\<rparr>"

section \<open>The tree parser\<close>

text \<open>Lines 83 to 91 of \<open>normalize_root_and_entries\<close>: the root directory of the first line.\<close>

definition root_dir_of :: "pystr \<Rightarrow> py_error + path" where
  "root_dir_of first_line =
     (let root_line = strip first_line;
          root_name = strip (strip_chars (TREE_CHARS @ [SPACE]) root_line)
      in case split_ws root_name of
           [] \<Rightarrow> Inl IndexError
         | t # ts \<Rightarrow>
             (let root_name = last (t # ts);
                  root_name = strip (filter (\<lambda>c. c \<notin> set (TREE_CHARS @ [SPACE])) root_name)
              in Inr (Path (rstrip_chars [SLASH] root_name))))"

text \<open>
  Lines 100 and 101: the length of the leading run of whitespace and vertical bars (the
  group of the \<open>re.match\<close>, which matches every line).
\<close>

definition indent_of :: "pystr \<Rightarrow> nat" where
  "indent_of ln = length (takeWhile (\<lambda>c. is_space c \<or> c = BOX_V) ln)"

text \<open>
  The second \<open>re.sub\<close> of the label clean-up: one branch marker at the start of the string,
  the alternatives tried in the order of the pattern.
\<close>

definition strip_branch :: "pystr \<Rightarrow> pystr" where
  "strip_branch s =
     (if startswith s [BOX_T, BOX_H, BOX_H] then dropWhile is_space (drop 3 s)
      else if startswith s [BOX_L, BOX_H, BOX_H] then dropWhile is_space (drop 3 s)
      else if startswith s [BOX_H, BOX_H] then dropWhile is_space (drop 2 s)
      else s)"

text \<open>
  Lines 104 to 113: the label of a line, \<open>None\<close> where the loop says \<open>continue\<close>.
\<close>

definition label_of :: "pystr \<Rightarrow> pystr option" where
  "label_of ln =
     (let s = dropWhile (\<lambda>c. is_space c \<or> c \<in> set TREE_CHARS) ln;
          s = strip_branch s;
          s = strip s
      in if s = [] then None
         else (let s = strip (takeWhile (\<lambda>c. c \<noteq> HASH) s)
               in if s = [] then None else Some s))"

text \<open>
  Lines 123 to 132: the scan of \<open>next_lines\<close>. Blank lines are passed over; the first
  other line decides.
\<close>

fun scan_next :: "nat \<Rightarrow> pystr list \<Rightarrow> bool" where
  "scan_next indent_level [] = False"
| "scan_next indent_level (next_ln # rest) =
     (if strip next_ln = [] then scan_next indent_level rest
      else if indent_of next_ln > indent_level then True
      else False)"

text \<open>
  Lines 121 and 122: the scan starts after \<open>lines.index(original_line)\<close>, the first
  position in \<open>lines\<close> that holds a line equal to the current one.
\<close>

definition lookahead :: "pystr list \<Rightarrow> pystr \<Rightarrow> py_error + bool" where
  "lookahead lines original_line =
     (case py_index lines original_line of
        Inl e \<Rightarrow> Inl e
      | Inr i \<Rightarrow>
          if length lines > i + 1
          then Inr (scan_next (indent_of original_line) (drop (i + 1) lines))
          else Inr False)"

text \<open>Line 136: the connectors in the first \<open>indent_level + 10\<close> characters.\<close>

definition tree_depth_of :: "pystr \<Rightarrow> nat" where
  "tree_depth_of ln =
     length (filter (\<lambda>c. c = BOX_V \<or> c = BOX_T \<or> c = BOX_L) (take (indent_of ln + 10) ln))"

text \<open>
  Lines 139 and 140: \<open>while len(dir_stack) >= tree_depth: dir_stack.pop()\<close>. The top of
  the stack is the end of the list; \<open>pop\<close> on an empty list raises \<open>IndexError\<close>.
\<close>

function pop_stack :: "nat \<Rightarrow> pystr list \<Rightarrow> py_error + pystr list" where
  "pop_stack tree_depth dir_stack =
     (if length dir_stack \<ge> tree_depth
      then (if dir_stack = [] then Inl IndexError else pop_stack tree_depth (butlast dir_stack))
      else Inr dir_stack)"
  by pat_completeness auto
termination
  by (relation "measure (\<lambda>(d, st). length st)") auto

declare pop_stack.simps [simp del]

type_synonym entry = "pystr \<times> bool"

text \<open>
  The body of the loop over \<open>lines[1:]\<close>, on the state \<open>(entries, dir_stack)\<close>. On a
  POSIX system \<open>os.sep\<close> is the slash, so both tests of line 117 look for the same
  character.
\<close>

definition parse_line ::
  "pystr list \<Rightarrow> pystr \<Rightarrow> entry list \<times> pystr list \<Rightarrow> py_error + (entry list \<times> pystr list)" where
  "parse_line lines ln st =
     (case st of (entries, dir_stack) \<Rightarrow>
      (case label_of ln of
         None \<Rightarrow> Inr (entries, dir_stack)
       | Some s \<Rightarrow>
          (let is_dir = (endswith s [SLASH] \<or> endswith s [SLASH]);
               filename = strip (rstrip_chars [SLASH] s)
           in case (if \<not> is_dir then lookahead lines ln else Inr is_dir) of
                Inl e \<Rightarrow> Inl e
              | Inr is_dir \<Rightarrow>
                 (case pop_stack (tree_depth_of ln) dir_stack of
                    Inl e \<Rightarrow> Inl e
                  | Inr dir_stack \<Rightarrow>
                     (let rel_path = (if dir_stack \<noteq> [] then str_join [SLASH] (dir_stack @ [filename])
                                      else filename)
                      in Inr (entries @ [(rel_path, is_dir)],
                              if is_dir then dir_stack @ [filename] else dir_stack))))))"

fun parse_loop ::
  "pystr list \<Rightarrow> pystr list \<Rightarrow> entry list \<times> pystr list \<Rightarrow> py_error + (entry list \<times> pystr list)" where
  "parse_loop lines [] st = Inr st"
| "parse_loop lines (ln # rest) st =
     (case parse_line lines ln st of Inl e \<Rightarrow> Inl e | Inr st' \<Rightarrow> parse_loop lines rest st')"

definition normalize_root_and_entries :: "pystr list \<Rightarrow> py_error + (path \<times> entry list)" where
  "normalize_root_and_entries lines =
     (if lines = [] then Inr (Path (ascii ''.''), [])
      else (case root_dir_of (hd lines) of
              Inl e \<Rightarrow> Inl e
            | Inr root_dir \<Rightarrow>
               (case parse_loop lines (tl lines) ([], []) of
                  Inl e \<Rightarrow> Inl e
                | Inr (entries, dir_stack) \<Rightarrow> Inr (root_dir, entries))))"

section \<open>The block extractor\<close>

text \<open>
  \<open>re.findall\<close> with the pattern of line 53 under \<open>re.S\<close>: three backticks, a run of
  tag characters, a newline, then the shortest text up to the next three backticks. The
  tag run is followed by a newline, which is no tag character, so only the longest run
  can match. The search goes on after the end of a match, and one character further
  where there is none.
\<close>

definition FENCE :: pystr where
  "FENCE = [BACKTICK, BACKTICK, BACKTICK]"

definition is_tag_char :: "nat \<Rightarrow> bool" where
  "is_tag_char c \<longleftrightarrow>
     (97 \<le> c \<and> c \<le> 122) \<or> (65 \<le> c \<and> c \<le> 90) \<or> (48 \<le> c \<and> c \<le> 57) \<or> c = 95 \<or> c = 45"

fun until_fence :: "pystr \<Rightarrow> (pystr \<times> pystr) option" where
  "until_fence [] = None"
| "until_fence (c # cs) =
     (if startswith (c # cs) FENCE then Some ([], drop 3 (c # cs))
      else (case until_fence cs of None \<Rightarrow> None | Some (block, rest) \<Rightarrow> Some (c # block, rest)))"

definition match_fence :: "pystr \<Rightarrow> (pystr \<times> pystr) option" where
  "match_fence s =
     (if startswith s FENCE
      then (case dropWhile is_tag_char (drop 3 s) of
              [] \<Rightarrow> None
            | nl # body \<Rightarrow> if nl = NEWLINE then until_fence body else None)
      else None)"

lemma until_fence_shorter: "until_fence s = Some (block, rest) \<Longrightarrow> length rest < length s"
  by (induction s arbitrary: block) (auto split: if_splits option.splits)

lemma match_fence_shorter: "match_fence s = Some (block, rest) \<Longrightarrow> length rest < length s"
proof -
  assume m: "match_fence s = Some (block, rest)"
  then obtain nl body where d: "dropWhile is_tag_char (drop 3 s) = nl # body"
    and u: "until_fence body = Some (block, rest)"
    by (auto simp: match_fence_def split: if_splits list.splits)
  have "length (dropWhile is_tag_char (drop 3 s)) \<le> length (drop 3 s)"
    by (rule length_dropWhile_le)
  with d have "length body < length s" by simp
  with until_fence_shorter [OF u] show ?thesis by simp
qed

function findall_fences :: "pystr \<Rightarrow> pystr list" where
  "findall_fences [] = []"
| "findall_fences (c # cs) =
     (case match_fence (c # cs) of
        Some (block, rest) \<Rightarrow> block # findall_fences rest
      | None \<Rightarrow> findall_fences cs)"
  by pat_completeness auto
termination
  by (relation "measure length") (auto dest: match_fence_shorter)

text \<open>\<open>needle in s\<close> for strings.\<close>

fun contains :: "pystr \<Rightarrow> pystr \<Rightarrow> bool" where
  "contains [] needle = (needle = [])"
| "contains (c # cs) needle = (startswith (c # cs) needle \<or> contains cs needle)"

text \<open>The test of line 58.\<close>

definition looks_like_tree :: "pystr \<Rightarrow> bool" where
  "looks_like_tree block \<longleftrightarrow>
     (\<exists>ch \<in> set TREE_CHARS. ch \<in> set block) \<or> contains block [SPACE, SLASH]
     \<or> contains block [BACKSLASH]"

text \<open>
  \<open>sorted(fences, key=len, reverse=True)\<close>: a stable sort, so blocks of equal length keep
  their order.
\<close>

fun insert_desc :: "pystr \<Rightarrow> pystr list \<Rightarrow> pystr list" where
  "insert_desc x [] = [x]"
| "insert_desc x (y # ys) = (if length y < length x then x # y # ys else y # insert_desc x ys)"

definition sorted_desc :: "pystr list \<Rightarrow> pystr list" where
  "sorted_desc xs = foldl (\<lambda>acc x. insert_desc x acc) [] xs"

definition extract_tree_block :: "pystr \<Rightarrow> pystr" where
  "extract_tree_block markdown =
     (let fences = findall_fences markdown
      in if fences \<noteq> []
         then (let fences = sorted_desc fences
               in case filter looks_like_tree fences of
                    block # _ \<Rightarrow> strip block
                  | [] \<Rightarrow> strip (hd fences))
         else strip markdown)"

section \<open>The file system\<close>

text \<open>
  The state of the file system is the current directory and a map from absolute,
  resolved paths (lists of names) to nodes. A file holds its text, which stands for the
  bytes of its UTF-8 encoding. Symbolic links and permissions are outside the model, and
  so are the limits of a file system on names: the model takes every name.
\<close>

datatype node = Dir | File pystr

record fs =
  cwd :: "pystr list"
  tree :: "pystr list \<rightharpoonup> node"

text \<open>
  The errors that leave \<open>create_scaffold\<close>: four kinds of \<open>OSError\<close>, and the error of
  a text that has no UTF-8 encoding.
\<close>

datatype io_error =
  FileNotFoundError | NotADirectoryError | FileExistsError | IsADirectoryError | UnicodeEncodeError

text \<open>
  The code points of a \<open>str\<close> reach U+10FFFF. UTF-8 encodes every one of them but the
  surrogates, U+D800 to U+DFFF; a \<open>str\<close> can hold these, for one as the image of a byte
  of the command line that is no UTF-8. The length of the encoding is counted in bytes.
\<close>

definition utf8_encodable :: "pystr \<Rightarrow> bool" where
  "utf8_encodable s = list_all (\<lambda>c. c < 0xD800 \<or> 0xDFFF < c) s"

definition utf8_len :: "nat \<Rightarrow> nat" where
  "utf8_len c = (if c < 0x80 then 1 else if c < 0x800 then 2 else if c < 0x10000 then 3 else 4)"

definition utf8_size :: "pystr \<Rightarrow> nat" where
  "utf8_size s = sum_list (map utf8_len s)"

text \<open>
  The limits of a Linux file system, which the model of the file system leaves out: a
  name is not empty, holds no NUL and no slash, has an encoding of at most \<open>NAME_MAX\<close>
  bytes, and a path given to the system is shorter than \<open>PATH_MAX\<close> bytes. Inside these
  limits no operation fails for the form of a name.
\<close>

definition NAME_MAX :: nat where "NAME_MAX = 255"
definition PATH_MAX :: nat where "PATH_MAX = 4096"

definition name_within_limits :: "pystr \<Rightarrow> bool" where
  "name_within_limits n \<longleftrightarrow>
     n \<noteq> [] \<and> list_all (\<lambda>c. c \<noteq> 0 \<and> c \<noteq> SLASH) n \<and> utf8_encodable n
     \<and> utf8_size n \<le> NAME_MAX"

definition path_within_limits :: "path \<Rightarrow> bool" where
  "path_within_limits p \<longleftrightarrow>
     list_all name_within_limits (p_parts p) \<and> utf8_size (path_str p) < PATH_MAX"

definition DOTDOT :: pystr where
  "DOTDOT = ascii ''..''"

text \<open>
  Path resolution: every component is looked up in a directory, \<open>..\<close> leads to the
  parent, and the parent of the root is the root.
\<close>

fun walk :: "(pystr list \<rightharpoonup> node) \<Rightarrow> pystr list \<Rightarrow> pystr list \<Rightarrow> io_error + pystr list" where
  "walk t cur [] = Inr cur"
| "walk t cur (s # ss) =
     (case t cur of
        None \<Rightarrow> Inl FileNotFoundError
      | Some (File c) \<Rightarrow> Inl NotADirectoryError
      | Some Dir \<Rightarrow> walk t (if s = DOTDOT then butlast cur else cur @ [s]) ss)"

definition resolve :: "fs \<Rightarrow> path \<Rightarrow> io_error + pystr list" where
  "resolve s p = walk (tree s) (if p_root p = [] then cwd s else []) (p_parts p)"

definition stat :: "fs \<Rightarrow> path \<Rightarrow> io_error + node" where
  "stat s p =
     (case resolve s p of
        Inl e \<Rightarrow> Inl e
      | Inr d \<Rightarrow> (case tree s d of None \<Rightarrow> Inl FileNotFoundError | Some n \<Rightarrow> Inr n))"

text \<open>\<open>Path.exists\<close>, \<open>Path.is_dir\<close> and \<open>Path.is_file\<close> answer \<open>False\<close> where \<open>stat\<close> fails.\<close>

definition path_exists :: "fs \<Rightarrow> path \<Rightarrow> bool" where
  "path_exists s p = (case stat s p of Inl e \<Rightarrow> False | Inr n \<Rightarrow> True)"

definition path_is_dir :: "fs \<Rightarrow> path \<Rightarrow> bool" where
  "path_is_dir s p = (case stat s p of Inr Dir \<Rightarrow> True | _ \<Rightarrow> False)"

definition path_is_file :: "fs \<Rightarrow> path \<Rightarrow> bool" where
  "path_is_file s p = (case stat s p of Inr (File c) \<Rightarrow> True | _ \<Rightarrow> False)"

text \<open>
  \<open>stat().st_size\<close>, in bytes. Line 179 asks for it for regular files only and compares
  it with zero; the size of a directory depends on the file system.
\<close>

definition st_size :: "fs \<Rightarrow> path \<Rightarrow> io_error + nat" where
  "st_size s p =
     (case stat s p of
        Inl e \<Rightarrow> Inl e
      | Inr Dir \<Rightarrow> Inr 4096
      | Inr (File c) \<Rightarrow> Inr (utf8_size c))"

text \<open>
  \<open>os.mkdir\<close>: a path with no component, or one that ends in \<open>..\<close>, names a directory
  that exists already.
\<close>

definition os_mkdir :: "fs \<Rightarrow> path \<Rightarrow> io_error + fs" where
  "os_mkdir s p =
     (if p_parts p = [] then Inl FileExistsError
      else (case resolve s p of
              Inl e \<Rightarrow> Inl e
            | Inr d \<Rightarrow>
                if last (p_parts p) = DOTDOT then Inl FileExistsError
                else if tree s d \<noteq> None then Inl FileExistsError
                else Inr (s\<lparr>tree := (tree s)(d \<mapsto> Dir)\<rparr>)))"

text \<open>
  \<open>Path.mkdir(parents, exist_ok)\<close> as \<open>pathlib\<close> writes it: try \<open>os.mkdir\<close>; where the
  parent is missing, make the parent with \<open>parents=True, exist_ok=True\<close> and try again
  with \<open>parents=False\<close>; any other error is passed on unless \<open>exist_ok\<close> holds and the
  path is a directory. The state is returned with the error: directories made before the
  error stay.
\<close>

function path_mkdir :: "bool \<Rightarrow> bool \<Rightarrow> path \<Rightarrow> fs \<Rightarrow> fs \<times> io_error option" where
  "path_mkdir parents exist_ok p s =
     (case os_mkdir s p of
        Inr s' \<Rightarrow> (s', None)
      | Inl e \<Rightarrow>
          if e = FileNotFoundError
          then (if \<not> parents \<or> parent p = p then (s, Some e)
                else (case path_mkdir True True (parent p) s of
                        (s1, Some e1) \<Rightarrow> (s1, Some e1)
                      | (s1, None) \<Rightarrow> path_mkdir False exist_ok p s1))
          else (if \<not> exist_ok \<or> \<not> path_is_dir s p then (s, Some e) else (s, None)))"
  by pat_completeness auto
termination
proof (relation "measure (\<lambda>(parents, exist_ok, p, s). 2 * length (p_parts p) + (if parents then 1 else 0))")
  show "wf (measure (\<lambda>(parents, exist_ok, p, s). 2 * length (p_parts p) + (if parents then 1 else 0)))"
    by simp
next
  fix parents exist_ok :: bool and p :: path and s :: fs and e :: io_error
  assume "\<not> (\<not> parents \<or> parent p = p)"
  then have "p_parts p \<noteq> []"
    by (auto simp: parent_def)
  then show "((True, True, parent p, s), (parents, exist_ok, p, s))
      \<in> measure (\<lambda>(parents, exist_ok, p, s). 2 * length (p_parts p) + (if parents then 1 else 0))"
    by (cases "p_parts p" rule: rev_cases) (auto simp: parent_def)
next
  fix parents exist_ok :: bool and p :: path and s s1 :: fs and e :: io_error
  assume "\<not> (\<not> parents \<or> parent p = p)"
  then show "((False, exist_ok, p, s1), (parents, exist_ok, p, s))
      \<in> measure (\<lambda>(parents, exist_ok, p, s). 2 * length (p_parts p) + (if parents then 1 else 0))"
    by simp
qed

declare path_mkdir.simps [simp del]

text \<open>
  \<open>Path.open\<close> with mode \<open>w\<close>: the file is made if it is missing and cut to length zero
  if it is there; the place of the file is returned for the write. Opening a directory
  raises \<open>IsADirectoryError\<close>; where every node but the root lies in a directory, this is
  what happens for a path with no component or with \<open>..\<close> at its end.
\<close>

definition open_w :: "path \<Rightarrow> fs \<Rightarrow> fs \<times> (io_error + pystr list)" where
  "open_w p s =
     (case resolve s p of
        Inl e \<Rightarrow> (s, Inl e)
      | Inr d \<Rightarrow>
          (case tree s d of
             Some Dir \<Rightarrow> (s, Inl IsADirectoryError)
           | _ \<Rightarrow> (s\<lparr>tree := (tree s)(d \<mapsto> File [])\<rparr>, Inr d)))"

text \<open>
  \<open>Path.write_text(data, encoding="utf-8")\<close>: the file is opened first, then the text is
  encoded and written. A text that cannot be encoded raises \<open>UnicodeEncodeError\<close> after
  the file has been made or cut: the file is left empty.
\<close>

definition write_text :: "path \<Rightarrow> pystr \<Rightarrow> fs \<Rightarrow> fs \<times> io_error option" where
  "write_text p data s =
     (case open_w p s of
        (s1, Inl e) \<Rightarrow> (s1, Some e)
      | (s1, Inr d) \<Rightarrow>
          if utf8_encodable data then (s1\<lparr>tree := (tree s1)(d \<mapsto> File data)\<rparr>, None)
          else (s1, Some UnicodeEncodeError))"

section \<open>The scaffold builder\<close>

type_synonym action = "pystr \<times> pystr"

text \<open>\<open>default_file_content or ""\<close>.\<close>

definition content_or_empty :: "pystr option \<Rightarrow> pystr" where
  "content_or_empty c = (case c of None \<Rightarrow> [] | Some x \<Rightarrow> x)"

text \<open>
  Lines 178 to 185: whether line 186 is reached for a target, that is, whether the loop
  does not \<open>continue\<close> before the write.
\<close>

definition reaches_write :: "bool \<Rightarrow> fs \<Rightarrow> path \<Rightarrow> bool" where
  "reaches_write force s target =
     (if path_exists s target
      then (if force \<and> path_is_file s target \<and> st_size s target = Inr 0 then True
            else if force \<and> path_is_file s target then True
            else False)
      else True)"

text \<open>
  The body of the loop of lines 166 to 186, on the state of the file system. It gives the
  action appended to \<open>actions\<close>, or the error that leaves the function.
\<close>

definition scaffold_entry ::
  "path \<Rightarrow> bool \<Rightarrow> bool \<Rightarrow> pystr option \<Rightarrow> entry \<Rightarrow> fs \<Rightarrow> fs \<times> (io_error + action)" where
  "scaffold_entry root_abs dry force default_file_content e s =
     (case e of (rel, is_dir) \<Rightarrow>
      (let target = joinpath root_abs (Path rel)
       in if is_dir
          then (if \<not> dry
                then (case path_mkdir True True target s of
                        (s1, Some err) \<Rightarrow> (s1, Inl err)
                      | (s1, None) \<Rightarrow> (s1, Inr (ascii ''mkdir'', path_str target)))
                else (s, Inr (ascii ''mkdir'', path_str target)))
          else (case (if \<not> dry then path_mkdir True True (parent target) s else (s, None)) of
                  (s1, Some err) \<Rightarrow> (s1, Inl err)
                | (s1, None) \<Rightarrow>
                    if \<not> dry
                    then (if reaches_write force s1 target
                          then (case write_text target (content_or_empty default_file_content) s1 of
                                  (s2, Some err) \<Rightarrow> (s2, Inl err)
                                | (s2, None) \<Rightarrow> (s2, Inr (ascii ''touch'', path_str target)))
                          else (s1, Inr (ascii ''touch'', path_str target)))
                    else (s1, Inr (ascii ''touch'', path_str target)))))"

fun scaffold_loop ::
  "path \<Rightarrow> bool \<Rightarrow> bool \<Rightarrow> pystr option \<Rightarrow> entry list \<Rightarrow> action list \<Rightarrow> fs
     \<Rightarrow> fs \<times> (io_error + action list)" where
  "scaffold_loop root_abs dry force default_file_content [] actions s = (s, Inr actions)"
| "scaffold_loop root_abs dry force default_file_content (e # es) actions s =
     (case scaffold_entry root_abs dry force default_file_content e s of
        (s1, Inl err) \<Rightarrow> (s1, Inl err)
      | (s1, Inr a) \<Rightarrow> scaffold_loop root_abs dry force default_file_content es (actions @ [a]) s1)"

definition create_scaffold ::
  "path \<Rightarrow> entry list \<Rightarrow> path \<Rightarrow> bool \<Rightarrow> bool \<Rightarrow> pystr option \<Rightarrow> fs
     \<Rightarrow> fs \<times> (io_error + action list)" where
  "create_scaffold root entries base_root dry force default_file_content s =
     (let root_abs = joinpath base_root root;
          actions = [(ascii ''mkdir'', path_str root_abs)]
      in case (if \<not> dry then path_mkdir True True root_abs s else (s, None)) of
           (s1, Some err) \<Rightarrow> (s1, Inl err)
         | (s1, None) \<Rightarrow> scaffold_loop root_abs dry force default_file_content entries actions s1)"

section \<open>Inputs of the examples\<close>

text \<open>The tree of the end-to-end example: a directory with one file, and a file beside it.\<close>

definition example_tree :: "pystr list" where
  "example_tree =
     [ascii ''root/'',
      [BOX_T, BOX_H, BOX_H, SPACE] @ ascii ''a/'',
      [BOX_V, SPACE, SPACE, SPACE, BOX_L, BOX_H, BOX_H, SPACE] @ ascii ''b.txt'',
      [BOX_L, BOX_H, BOX_H, SPACE] @ ascii ''c.txt'']"

text \<open>
  A tree in which two directories hold an entry of the same name, drawn at the same
  column: \<open>a/lib\<close> has a child, \<open>b/lib\<close> is the last line.
\<close>

definition twin_tree :: "pystr list" where
  "twin_tree =
     [ascii ''root/'',
      [BOX_T, BOX_H, BOX_H, SPACE] @ ascii ''a/'',
      [BOX_V, SPACE, SPACE, SPACE, BOX_T, BOX_H, BOX_H, SPACE] @ ascii ''lib'',
      [BOX_V, SPACE, SPACE, SPACE, BOX_V, SPACE, SPACE, SPACE, BOX_L, BOX_H, BOX_H, SPACE]
        @ ascii ''f.py'',
      [BOX_T, BOX_H, BOX_H, SPACE] @ ascii ''b/'',
      [BOX_V, SPACE, SPACE, SPACE, BOX_T, BOX_H, BOX_H, SPACE] @ ascii ''lib'']"

text \<open>
  A text with two fenced blocks: some notes, and after them a shorter tree written with
  plain indentation.
\<close>

definition two_blocks :: pystr where
  "two_blocks =
     FENCE @ [NEWLINE] @ ascii ''some longer notes here'' @ [NEWLINE] @ FENCE @ [NEWLINE]
     @ FENCE @ [NEWLINE] @ ascii ''root/'' @ [NEWLINE] @ ascii ''  a.txt'' @ [NEWLINE] @ FENCE"

section \<open>Properties of entry lists\<close>

text \<open>
  The name of a line, line 118: the label without its trailing separators.
\<close>

definition filename_of :: "pystr \<Rightarrow> pystr option" where
  "filename_of ln =
     (case label_of ln of None \<Rightarrow> None | Some s \<Rightarrow> Some (strip (rstrip_chars [SLASH] s)))"

text \<open>
  The immediate parent prefix of a relative path: the text before its last separator.
  Parents precede their children when every path with a separator has its parent prefix
  as the path of an earlier directory entry.
\<close>

definition parent_prefix :: "pystr \<Rightarrow> pystr" where
  "parent_prefix p = butlast (rev (dropWhile (\<lambda>c. c \<noteq> SLASH) (rev p)))"

definition parents_precede :: "entry list \<Rightarrow> bool" where
  "parents_precede es \<longleftrightarrow>
     (\<forall>i < length es. SLASH \<in> set (fst (es ! i)) \<longrightarrow>
        (\<exists>j < i. es ! j = (parent_prefix (fst (es ! i)), True)))"

text \<open>
  The invariant of the parser's loop: every non-empty prefix of the directory stack,
  joined, is the path of a directory entry emitted so far.
\<close>

definition stack_known :: "entry list \<Rightarrow> pystr list \<Rightarrow> bool" where
  "stack_known es st \<longleftrightarrow>
     (\<forall>k. 0 < k \<and> k \<le> length st \<longrightarrow> (str_join [SLASH] (take k st), True) \<in> set es)"


section \<open>Orders and plans of the scaffold builder\<close>

text \<open>
  One state of the file system extends another when the current directory is the same
  and every node of the first is a node of the second, unchanged.
\<close>

definition fs_le :: "fs \<Rightarrow> fs \<Rightarrow> bool" where
  "fs_le s s' \<longleftrightarrow> cwd s' = cwd s \<and> tree s \<subseteq>\<^sub>m tree s'"

text \<open>
  The action that lines 169 and 176 append for an entry, and the list of line 162 followed
  by one action for each entry.
\<close>

definition action_of :: "path \<Rightarrow> entry \<Rightarrow> action" where
  "action_of root_abs e =
     (case e of (rel, is_dir) \<Rightarrow>
        (if is_dir then ascii ''mkdir'' else ascii ''touch'',
         path_str (joinpath root_abs (Path rel))))"

definition planned_actions :: "path \<Rightarrow> entry list \<Rightarrow> path \<Rightarrow> action list" where
  "planned_actions root entries base_root =
     (ascii ''mkdir'', path_str (joinpath base_root root))
       # map (action_of (joinpath base_root root)) entries"

section \<open>File systems of the examples\<close>

text \<open>
  The current directory is the root in each: a file system with the root directory
  only; one with the directory \<open>/r\<close>; one where \<open>/r/a\<close> is an empty file; one where
  \<open>/r/a\<close> holds the text \<open>old\<close>; and one where \<open>/r\<close> itself is a file.
\<close>

definition fs_root :: fs where
  "fs_root = \<lparr>cwd = [], tree = [[] \<mapsto> Dir]\<rparr>"

definition fs_with_dir :: fs where
  "fs_with_dir = \<lparr>cwd = [], tree = [[] \<mapsto> Dir, [ascii ''r''] \<mapsto> Dir]\<rparr>"

definition fs_empty_file :: fs where
  "fs_empty_file =
     \<lparr>cwd = [], tree = [[] \<mapsto> Dir, [ascii ''r''] \<mapsto> Dir, [ascii ''r'', ascii ''a''] \<mapsto> File []]\<rparr>"

definition fs_with_file :: fs where
  "fs_with_file =
     \<lparr>cwd = [],
      tree = [[] \<mapsto> Dir, [ascii ''r''] \<mapsto> Dir, [ascii ''r'', ascii ''a''] \<mapsto> File (ascii ''old'')]\<rparr>"

definition fs_root_is_file :: fs where
  "fs_root_is_file = \<lparr>cwd = [], tree = [[] \<mapsto> Dir, [ascii ''r''] \<mapsto> File (ascii ''x'')]\<rparr>"

section \<open>Evaluation\<close>

lemmas str_defs = ascii_def BOX_V_def BOX_T_def BOX_L_def BOX_H_def TREE_CHARS_def SLASH_def
  SPACE_def HASH_def BACKSLASH_def NEWLINE_def BACKTICK_def is_space_def lstrip_by_def
  rstrip_by_def strip_by_def strip_def strip_chars_def rstrip_chars_def split_ws_def
  startswith_def endswith_def py_index_def Let_def

lemmas path_defs = splitroot_def Path_def joinpath_def path_str_def parent_def

lemmas fs_defs = path_mkdir.simps os_mkdir_def resolve_def stat_def path_is_dir_def
  path_exists_def path_is_file_def st_size_def open_w_def write_text_def scaffold_entry_def
  utf8_encodable_def utf8_len_def utf8_size_def NAME_MAX_def PATH_MAX_def name_within_limits_def
  path_within_limits_def
  reaches_write_def create_scaffold_def content_or_empty_def DOTDOT_def

lemmas block_defs = FENCE_def is_tag_char_def match_fence_def looks_like_tree_def sorted_desc_def
  extract_tree_block_def

lemmas parse_defs = root_dir_of_def indent_of_def strip_branch_def label_of_def lookahead_def
  tree_depth_of_def parse_line_def normalize_root_and_entries_def pop_stack.simps

section \<open>The tree parser on the example trees\<close>

text \<open>
  C1. The four lines of the example tree parse to the root \<open>root\<close> and the entries
  \<open>a\<close> (a directory), \<open>a/b.txt\<close> (a file) and \<open>c.txt\<close> (a file), in this order. After
  the line of \<open>a\<close> the directory stack is \<open>[a]\<close>; the line of \<open>b.txt\<close> pops nothing
  from it, so \<open>a\<close> is on the stack while \<open>b.txt\<close> is processed and gives the path its
  prefix.
\<close>

theorem C1_example_tree:
  "normalize_root_and_entries example_tree =
     Inr (Path (ascii ''root''),
          [(ascii ''a'', True), (ascii ''a/b.txt'', False), (ascii ''c.txt'', False)])
   \<and> path_str (Path (ascii ''root'')) = ascii ''root''
   \<and> parse_loop example_tree [example_tree ! 1] ([], []) = Inr ([(ascii ''a'', True)], [ascii ''a''])
   \<and> pop_stack (tree_depth_of (example_tree ! 2)) [ascii ''a''] = Inr [ascii ''a'']
   \<and> parse_line example_tree (example_tree ! 2) ([(ascii ''a'', True)], [ascii ''a''])
       = Inr ([(ascii ''a'', True), (ascii ''a/b.txt'', False)], [ascii ''a''])"
  by (simp add: example_tree_def str_defs path_defs parse_defs)

text \<open>
  C2. The parser does raise. A line after the first that has a label and no connector
  among its first characters has tree depth zero, and the loop of lines 139 and 140 then
  pops the empty stack: \<open>IndexError\<close>. A first line made of connectors only leaves no
  token for \<open>split()[-1]\<close>: \<open>IndexError\<close> again. The empty sequence does give the
  current-directory marker and no entry.
\<close>

theorem C2_parser_raises:
  "normalize_root_and_entries [ascii ''root/'', ascii ''src/main.py''] = Inl IndexError
   \<and> normalize_root_and_entries [[BOX_T, BOX_H, BOX_H]] = Inl IndexError
   \<and> normalize_root_and_entries [] = Inr (Path (ascii ''.''), [])
   \<and> path_str (Path (ascii ''.'')) = ascii ''.''"
  by (simp add: str_defs path_defs parse_defs)

text \<open>
  C3. The scan does not start at the current index. In the twin tree the last line, at
  index 5, equals the line at index 2; \<open>lines.index\<close> gives 2, the scan starts at index 3
  and finds the child of \<open>a/lib\<close>, and \<open>b/lib\<close> becomes a directory. The scan from the
  current index, over the lines after index 5, finds nothing and says file.
\<close>

theorem C3_scan_starts_at_first_equal_line:
  "normalize_root_and_entries twin_tree =
     Inr (Path (ascii ''root''),
          [(ascii ''a'', True), (ascii ''a/lib'', True), (ascii ''a/lib/f.py'', False),
           (ascii ''b'', True), (ascii ''b/lib'', True)])
   \<and> twin_tree ! 5 = twin_tree ! 2
   \<and> py_index twin_tree (twin_tree ! 5) = Inr 2
   \<and> lookahead twin_tree (twin_tree ! 5) = Inr True
   \<and> scan_next (indent_of (twin_tree ! 5)) (drop (5 + 1) twin_tree) = False"
  by (simp add: twin_tree_def str_defs path_defs parse_defs)

section \<open>The block extractor on two blocks\<close>

text \<open>
  C5. A forward slash alone does not make a block look like a tree. Line 58 looks for a
  tree connector, for a space followed by a slash, or for a backslash. The second block
  of the text holds \<open>root/\<close>, a path separator, and no space before a slash, so no block
  qualifies and the longest block, the notes, is returned.
\<close>

theorem C5_slash_needs_space:
  "findall_fences two_blocks =
     [ascii ''some longer notes here'' @ [NEWLINE],
      ascii ''root/'' @ [NEWLINE] @ ascii ''  a.txt'' @ [NEWLINE]]
   \<and> contains (ascii ''root/'' @ [NEWLINE] @ ascii ''  a.txt'' @ [NEWLINE]) [SLASH]
   \<and> \<not> looks_like_tree (ascii ''root/'' @ [NEWLINE] @ ascii ''  a.txt'' @ [NEWLINE])
   \<and> extract_tree_block two_blocks = ascii ''some longer notes here''"
  by (simp add: two_blocks_def block_defs str_defs)

section \<open>Parents precede their children\<close>

text \<open>
  C6, as stated, fails: a label may hold a separator itself, and the parser does not
  split it. The line \<open>src/main.py\<close> under the root gives the entry \<open>src/main.py\<close> with
  no entry \<open>src\<close> before it.
\<close>

theorem C6_label_with_separator:
  "normalize_root_and_entries
     [ascii ''root/'', [BOX_T, BOX_H, BOX_H, SPACE] @ ascii ''src/main.py'']
     = Inr (Path (ascii ''root''), [(ascii ''src/main.py'', False)])
   \<and> \<not> parents_precede [(ascii ''src/main.py'', False)]"
  by (simp add: parents_precede_def str_defs path_defs parse_defs)

lemma str_join_snoc:
  "st \<noteq> [] \<Longrightarrow> str_join sep (st @ [f]) = str_join sep st @ sep @ f"
  by (induction sep st rule: str_join.induct) auto

lemma parent_prefix_append:
  "SLASH \<notin> set f \<Longrightarrow> parent_prefix (a @ [SLASH] @ f) = a"
proof -
  assume "SLASH \<notin> set f"
  then have "dropWhile (\<lambda>c. c \<noteq> SLASH) (rev f @ SLASH # rev a) = SLASH # rev a"
    by (subst dropWhile_append2) auto
  then show ?thesis
    by (simp add: parent_prefix_def)
qed

lemma pop_stack_take:
  "pop_stack d st = Inr st' \<Longrightarrow> \<exists>k. st' = take k st"
proof (induction d st rule: pop_stack.induct)
  case (1 d st)
  show ?case
  proof (cases "length st \<ge> d")
    case False
    with "1.prems" have "st' = st" by (simp add: pop_stack.simps)
    then have "st' = take (length st) st" by simp
    then show ?thesis by blast
  next
    case True
    with "1.prems" have ne: "st \<noteq> []" and r: "pop_stack d (butlast st) = Inr st'"
      by (auto simp: pop_stack.simps [of d st] split: if_splits)
    from "1.IH" [OF True ne r] obtain k where "st' = take k (butlast st)" by blast
    then have "st' = take (min k (length st - 1)) st"
      by (simp add: butlast_conv_take min.commute)
    then show ?thesis by blast
  qed
qed

lemma parents_precede_snoc:
  assumes "parents_precede es"
      and "SLASH \<in> set (fst e) \<Longrightarrow> (parent_prefix (fst e), True) \<in> set es"
  shows "parents_precede (es @ [e])"
  unfolding parents_precede_def
proof (intro allI impI)
  fix i assume i: "i < length (es @ [e])" and sl: "SLASH \<in> set (fst ((es @ [e]) ! i))"
  show "\<exists>j<i. (es @ [e]) ! j = (parent_prefix (fst ((es @ [e]) ! i)), True)"
  proof (cases "i < length es")
    case True
    with sl assms(1) obtain j where "j < i" "es ! j = (parent_prefix (fst (es ! i)), True)"
      by (auto simp: parents_precede_def nth_append)
    with True show ?thesis by (auto simp: nth_append intro!: exI [of _ j])
  next
    case False
    with i have ie: "i = length es" by simp
    with sl have "SLASH \<in> set (fst e)" by simp
    from assms(2) [OF this] obtain j where "j < length es" "es ! j = (parent_prefix (fst e), True)"
      by (auto simp: in_set_conv_nth)
    with ie show ?thesis by (auto simp: nth_append intro!: exI [of _ j])
  qed
qed

lemma parse_line_inv:
  assumes pl: "parse_line lines ln (es, st) = Inr (es', st')"
      and nm: "\<And>f. filename_of ln = Some f \<Longrightarrow> SLASH \<notin> set f"
      and pp: "parents_precede es" and sk: "stack_known es st"
  shows "parents_precede es' \<and> stack_known es' st'"
proof (cases "label_of ln")
  case None
  with pl pp sk show ?thesis by (simp add: parse_line_def)
next
  case (Some s)
  define f where "f = strip (rstrip_chars [SLASH] s)"
  have fn: "SLASH \<notin> set f" using nm Some by (simp add: filename_of_def f_def)
  define d0 where "d0 = (endswith s [SLASH] \<or> endswith s [SLASH])"
  define r where "r = (if \<not> d0 then lookahead lines ln else Inr d0)"
  have unf: "parse_line lines ln (es, st) =
      (case r of Inl e \<Rightarrow> Inl e
       | Inr d \<Rightarrow> (case pop_stack (tree_depth_of ln) st of Inl e \<Rightarrow> Inl e
           | Inr st1 \<Rightarrow> Inr (es @ [(if st1 \<noteq> [] then str_join [SLASH] (st1 @ [f]) else f, d)],
                               if d then st1 @ [f] else st1)))"
    by (auto simp: parse_line_def Some Let_def f_def r_def d0_def split: sum.splits)
  from pl unf obtain d where rd: "r = Inr d" by (cases r) auto
  from pl unf rd obtain st1 where ps: "pop_stack (tree_depth_of ln) st = Inr st1"
    by (cases "pop_stack (tree_depth_of ln) st") auto
  from pl unf rd ps have es': "es' = es @ [(if st1 \<noteq> [] then str_join [SLASH] (st1 @ [f]) else f, d)]"
    and st': "st' = (if d then st1 @ [f] else st1)"
    by auto
  from pop_stack_take [OF ps] obtain k where k: "st1 = take k st" by blast
  have sk1: "stack_known es st1"
    using sk unfolding stack_known_def k by (auto simp: min_def)
  have path: "(if st1 \<noteq> [] then str_join [SLASH] (st1 @ [f]) else f) = str_join [SLASH] (st1 @ [f])"
    by (cases st1) auto
  have "parents_precede es'"
    unfolding es'
  proof (rule parents_precede_snoc [OF pp])
    assume sl: "SLASH \<in> set (fst (if st1 \<noteq> [] then str_join [SLASH] (st1 @ [f]) else f, d))"
    with fn have ne: "st1 \<noteq> []" by (auto split: if_splits)
    then have pre: "parent_prefix (str_join [SLASH] (st1 @ [f])) = str_join [SLASH] st1"
      using parent_prefix_append [OF fn] by (simp add: str_join_snoc)
    from sk1 ne have "(str_join [SLASH] (take (length st1) st1), True) \<in> set es"
      unfolding stack_known_def by (metis length_greater_0_conv order_refl)
    with ne pre show "(parent_prefix (fst (if st1 \<noteq> [] then str_join [SLASH] (st1 @ [f]) else f, d)), True) \<in> set es"
      by simp
  qed
  moreover have "stack_known es' st'"
    unfolding stack_known_def
  proof (intro allI impI)
    fix j assume j: "0 < j \<and> j \<le> length st'"
    show "(str_join [SLASH] (take j st'), True) \<in> set es'"
    proof (cases "j \<le> length st1")
      case True
      then have "take j st' = take j st1" by (simp add: st')
      with sk1 j True show ?thesis by (auto simp: stack_known_def es')
    next
      case False
      with j have d and "j = length st1 + 1" by (auto simp: st' split: if_splits)
      then show ?thesis by (simp add: st' es' path)
    qed
  qed
  ultimately show ?thesis by simp
qed

lemma parse_loop_inv:
  assumes "parse_loop lines rest (es, st) = Inr (es', st')"
      and "\<And>ln f. ln \<in> set rest \<Longrightarrow> filename_of ln = Some f \<Longrightarrow> SLASH \<notin> set f"
      and "parents_precede es" and "stack_known es st"
  shows "parents_precede es'"
  using assms
proof (induction rest arbitrary: es st)
  case Nil
  then show ?case by simp
next
  case (Cons ln rest)
  from Cons.prems(1) obtain es1 st1 where 1: "parse_line lines ln (es, st) = Inr (es1, st1)"
    and 2: "parse_loop lines rest (es1, st1) = Inr (es', st')"
    by (auto split: sum.splits)
  have "parents_precede es1 \<and> stack_known es1 st1"
    by (rule parse_line_inv [OF 1 _ Cons.prems(3,4)]) (rule Cons.prems(2), simp_all)
  then show ?case
    using Cons.IH [OF 2] Cons.prems(2) by auto
qed

text \<open>
  C6, amended. Where no line after the first has a separator inside its name, every
  entry list the parser returns has parents before children: each path with a separator
  has its immediate parent prefix as the path of an earlier directory entry.
\<close>

theorem C6_parents_precede:
  assumes "normalize_root_and_entries lines = Inr (root_dir, entries)"
      and "\<forall>ln \<in> set (tl lines). \<forall>f. filename_of ln = Some f \<longrightarrow> SLASH \<notin> set f"
  shows "parents_precede entries"
proof (cases "lines = []")
  case True
  with assms(1) show ?thesis by (simp add: normalize_root_and_entries_def parents_precede_def)
next
  case False
  with assms(1) obtain st where "parse_loop lines (tl lines) ([], []) = Inr (entries, st)"
    by (auto simp: normalize_root_and_entries_def split: sum.splits)
  then show ?thesis
  proof (rule parse_loop_inv)
    fix ln f assume "ln \<in> set (tl lines)" "filename_of ln = Some f"
    with assms(2) show "SLASH \<notin> set f" by blast
  next
    show "parents_precede []" by (simp add: parents_precede_def)
  next
    show "stack_known [] []" by (auto simp: stack_known_def)
  qed
qed

theorem C6_parents_precede_witness:
  "normalize_root_and_entries example_tree =
     Inr (Path (ascii ''root''),
          [(ascii ''a'', True), (ascii ''a/b.txt'', False), (ascii ''c.txt'', False)])
   \<and> parents_precede [(ascii ''a'', True), (ascii ''a/b.txt'', False), (ascii ''c.txt'', False)]"
proof -
  have h1: "normalize_root_and_entries example_tree =
     Inr (Path (ascii ''root''),
          [(ascii ''a'', True), (ascii ''a/b.txt'', False), (ascii ''c.txt'', False)])"
    by (simp add: example_tree_def str_defs path_defs parse_defs)
  have h2: "\<forall>ln \<in> set (tl example_tree). \<forall>f. filename_of ln = Some f \<longrightarrow> SLASH \<notin> set f"
    by (simp add: example_tree_def filename_of_def str_defs parse_defs)
  from C6_parents_precede [OF h1 h2] h1 show ?thesis by simp
qed

section \<open>Path resolution and directory creation\<close>

lemma fs_le_refl: "fs_le s s"
  by (simp add: fs_le_def)

lemma fs_le_trans: "fs_le a b \<Longrightarrow> fs_le b c \<Longrightarrow> fs_le a c"
  by (auto simp: fs_le_def intro: map_le_trans)

lemma map_le_SomeD: "t \<subseteq>\<^sub>m t' \<Longrightarrow> t k = Some v \<Longrightarrow> t' k = Some v"
  by (metis domI map_le_def)

lemma walk_mono:
  "t \<subseteq>\<^sub>m t' \<Longrightarrow> walk t cur ss = Inr d \<Longrightarrow> walk t' cur ss = Inr d"
proof (induction ss arbitrary: cur)
  case Nil
  then show ?case by simp
next
  case (Cons x ss)
  from Cons.prems(2) have c: "t cur = Some Dir"
    by (auto split: option.splits node.splits)
  with Cons.prems(1) have c': "t' cur = Some Dir" by (rule map_le_SomeD)
  from Cons.prems(2) c have "walk t (if x = DOTDOT then butlast cur else cur @ [x]) ss = Inr d"
    by simp
  from Cons.IH [OF Cons.prems(1) this] c' show ?case by simp
qed

lemma walk_snoc:
  "walk t cur (ss @ [x]) = Inr d \<Longrightarrow> \<exists>d0. walk t cur ss = Inr d0 \<and> t d0 = Some Dir
      \<and> d = (if x = DOTDOT then butlast d0 else d0 @ [x])"
proof (induction ss arbitrary: cur)
  case Nil
  then show ?case by (auto split: option.splits node.splits)
next
  case (Cons y ss)
  from Cons.prems have c: "t cur = Some Dir"
    by (auto split: option.splits node.splits)
  with Cons.prems have "walk t (if y = DOTDOT then butlast cur else cur @ [y]) (ss @ [x]) = Inr d"
    by simp
  from Cons.IH [OF this] c show ?case by simp
qed

lemma walk_snoc_dir:
  "walk t cur ss = Inr d0 \<Longrightarrow> t d0 = Some Dir \<Longrightarrow>
     walk t cur (ss @ [x]) = Inr (if x = DOTDOT then butlast d0 else d0 @ [x])"
proof (induction ss arbitrary: cur)
  case Nil
  then show ?case by simp
next
  case (Cons y ss)
  from Cons.prems(1) have c: "t cur = Some Dir"
    by (auto split: option.splits node.splits)
  with Cons.prems(1) have "walk t (if y = DOTDOT then butlast cur else cur @ [y]) ss = Inr d0"
    by simp
  from Cons.IH [OF this Cons.prems(2)] c show ?case by simp
qed

lemma stat_mono: "fs_le s s' \<Longrightarrow> stat s p = Inr n \<Longrightarrow> stat s' p = Inr n"
proof -
  assume le: "fs_le s s'" and st: "stat s p = Inr n"
  from st obtain d where r: "resolve s p = Inr d" and n: "tree s d = Some n"
    by (auto simp: stat_def split: sum.splits option.splits)
  from le r have "resolve s' p = Inr d"
    by (auto simp: resolve_def fs_le_def intro: walk_mono)
  moreover from le n have "tree s' d = Some n"
    by (auto simp: fs_le_def intro: map_le_SomeD)
  ultimately show ?thesis by (simp add: stat_def)
qed

lemma path_is_dir_stat: "path_is_dir s p \<longleftrightarrow> stat s p = Inr Dir"
  by (auto simp: path_is_dir_def split: sum.splits node.splits)

lemma path_exists_stat: "path_exists s p \<longleftrightarrow> (\<exists>n. stat s p = Inr n)"
  by (auto simp: path_exists_def split: sum.splits)

lemma path_is_file_stat: "path_is_file s p \<longleftrightarrow> (\<exists>c. stat s p = Inr (File c))"
  by (auto simp: path_is_file_def split: sum.splits node.splits)

lemma path_is_dir_mono: "fs_le s s' \<Longrightarrow> path_is_dir s p \<Longrightarrow> path_is_dir s' p"
  by (simp add: path_is_dir_stat stat_mono)

lemma path_exists_mono: "fs_le s s' \<Longrightarrow> path_exists s p \<Longrightarrow> path_exists s' p"
  by (auto simp: path_exists_stat dest: stat_mono)

lemma os_mkdir_le: "os_mkdir s p = Inr s' \<Longrightarrow> fs_le s s'"
  by (auto simp: os_mkdir_def fs_le_def map_le_def split: if_splits sum.splits)

lemma os_mkdir_is_dir: "os_mkdir s p = Inr s' \<Longrightarrow> path_is_dir s' p"
proof -
  assume m: "os_mkdir s p = Inr s'"
  then obtain d where r: "resolve s p = Inr d" and s': "s' = s\<lparr>tree := (tree s)(d \<mapsto> Dir)\<rparr>"
    by (auto simp: os_mkdir_def split: if_splits sum.splits)
  from os_mkdir_le [OF m] r have "resolve s' p = Inr d"
    by (auto simp: resolve_def fs_le_def intro: walk_mono)
  then show ?thesis by (simp add: path_is_dir_stat stat_def s')
qed

lemma os_mkdir_dir_exists: "path_is_dir s p \<Longrightarrow> os_mkdir s p = Inl FileExistsError"
  by (auto simp: path_is_dir_stat stat_def os_mkdir_def split: sum.splits option.splits)

lemma os_mkdir_enoent: "os_mkdir s p = Inl FileNotFoundError \<Longrightarrow> resolve s p = Inl FileNotFoundError"
  by (auto simp: os_mkdir_def split: if_splits sum.splits)

lemma is_dir_parent: "path_is_dir s p \<Longrightarrow> path_is_dir s (parent p)"
proof (cases "p_parts p" rule: rev_cases)
  case Nil
  assume "path_is_dir s p"
  moreover have "stat s (parent p) = stat s p" using Nil by (simp add: stat_def resolve_def parent_def)
  ultimately show ?thesis by (simp add: path_is_dir_stat)
next
  case (snoc ss x)
  assume "path_is_dir s p"
  then obtain d where "walk (tree s) (if p_root p = [] then cwd s else []) (ss @ [x]) = Inr d"
    using snoc by (auto simp: path_is_dir_stat stat_def resolve_def split: sum.splits)
  from walk_snoc [OF this] snoc show ?thesis
    by (auto simp: path_is_dir_stat stat_def resolve_def parent_def)
qed

lemma path_mkdir_cases:
  assumes "path_mkdir par ex p s = (s', r)"
  obtains
    (made) "os_mkdir s p = Inr s'" "r = None"
  | (missing) "os_mkdir s p = Inl FileNotFoundError" "\<not> par \<or> parent p = p" "s' = s"
      "r = Some FileNotFoundError"
  | (parent_failed) e1 where "os_mkdir s p = Inl FileNotFoundError" "par" "parent p \<noteq> p"
      "path_mkdir True True (parent p) s = (s', Some e1)" "r = Some e1"
  | (parent_made) s1 where "os_mkdir s p = Inl FileNotFoundError" "par" "parent p \<noteq> p"
      "path_mkdir True True (parent p) s = (s1, None)" "path_mkdir False ex p s1 = (s', r)"
  | (other) e where "os_mkdir s p = Inl e" "e \<noteq> FileNotFoundError" "s' = s"
      "r = (if \<not> ex \<or> \<not> path_is_dir s p then Some e else None)"
proof (cases "os_mkdir s p")
  case (Inr s2)
  with assms have "s' = s2" "r = None" by (simp_all add: path_mkdir.simps [of _ ex p s])
  with Inr show ?thesis by (auto intro: made)
next
  case (Inl e)
  show ?thesis
  proof (cases "e = FileNotFoundError")
    case False
    with Inl assms have "s' = s" "r = (if \<not> ex \<or> \<not> path_is_dir s p then Some e else None)"
      by (auto simp: path_mkdir.simps [of _ ex p s] split: if_splits)
    with Inl False show ?thesis by (auto intro: other)
  next
    case True
    show ?thesis
    proof (cases "\<not> par \<or> parent p = p")
      case True
      with Inl \<open>e = FileNotFoundError\<close> assms have "s' = s" "r = Some FileNotFoundError"
        by (auto simp: path_mkdir.simps [of _ ex p s])
      with Inl \<open>e = FileNotFoundError\<close> True show ?thesis by (auto intro: missing)
    next
      case False
      obtain s1 y where pm: "path_mkdir True True (parent p) s = (s1, y)"
        by (cases "path_mkdir True True (parent p) s") auto
      show ?thesis
      proof (cases y)
        case None
        with Inl True False pm assms have "path_mkdir False ex p s1 = (s', r)"
          by (simp add: path_mkdir.simps [of _ ex p s])
        with Inl True False pm None show ?thesis by (auto intro: parent_made)
      next
        case (Some e1)
        with Inl True False pm assms have "s' = s1" "r = Some e1"
          by (simp_all add: path_mkdir.simps [of _ ex p s])
        with Inl True False pm Some show ?thesis by (auto intro: parent_failed)
      qed
    qed
  qed
qed

lemma path_mkdir_le: "path_mkdir par ex p s = (s', r) \<Longrightarrow> fs_le s s'"
proof (induction par ex p s arbitrary: s' r rule: path_mkdir.induct)
  case (1 parents exist_ok p s)
  from "1.prems" show ?case
  proof (cases rule: path_mkdir_cases)
    case made
    then show ?thesis by (simp add: os_mkdir_le)
  next
    case missing
    then show ?thesis by (simp add: fs_le_refl)
  next
    case (parent_failed e1)
    then show ?thesis using "1.IH"(1) by auto
  next
    case (parent_made s1)
    from parent_made have a: "fs_le s s1" using "1.IH"(1) by auto
    from parent_made have "fs_le s1 s'" using "1.IH"(2) [of FileNotFoundError s1 None] by auto
    with a show ?thesis by (rule fs_le_trans)
  next
    case (other e)
    then show ?thesis by (simp add: fs_le_refl)
  qed
qed

lemma path_mkdir_is_dir: "path_mkdir par ex p s = (s', None) \<Longrightarrow> path_is_dir s' p"
proof (induction par ex p s arbitrary: s' rule: path_mkdir.induct)
  case (1 parents exist_ok p s)
  from "1.prems" show ?case
  proof (cases rule: path_mkdir_cases)
    case made
    then show ?thesis by (simp add: os_mkdir_is_dir)
  next
    case missing
    then show ?thesis by simp
  next
    case (parent_failed e1)
    then show ?thesis by simp
  next
    case (parent_made s1)
    then show ?thesis using "1.IH"(2) [of FileNotFoundError s1 None] by auto
  next
    case (other e)
    then show ?thesis by (auto split: if_splits)
  qed
qed

lemma path_mkdir_of_dir: "path_is_dir s p \<Longrightarrow> path_mkdir par True p s = (s, None)"
  by (simp add: path_mkdir.simps [of par True p s] os_mkdir_dir_exists)

lemma path_mkdir_failed: "path_mkdir par True p s = (s', Some e) \<Longrightarrow> \<not> path_is_dir s' p"
proof (induction par "True" p s arbitrary: s' e rule: path_mkdir.induct)
  case (1 parents p s)
  from "1.prems" show ?case
  proof (cases rule: path_mkdir_cases)
    case made
    then show ?thesis by simp
  next
    case missing
    from os_mkdir_enoent [OF missing(1)] missing(3) show ?thesis
      by (simp add: path_is_dir_stat stat_def)
  next
    case (parent_failed e1)
    with "1.hyps"(1) have "\<not> path_is_dir s' (parent p)" by auto
    then show ?thesis using is_dir_parent by blast
  next
    case (parent_made s1)
    then show ?thesis using "1.hyps"(2) [of FileNotFoundError s1 None] by auto
  next
    case (other e')
    then show ?thesis by (auto split: if_splits)
  qed
qed

lemma os_mkdir_parent_dir: "os_mkdir s p = Inr s' \<Longrightarrow> path_is_dir s (parent p)"
proof -
  assume m: "os_mkdir s p = Inr s'"
  then obtain d where ne: "p_parts p \<noteq> []" and r: "resolve s p = Inr d"
    by (auto simp: os_mkdir_def split: if_splits sum.splits)
  from ne obtain ss x where sx: "p_parts p = ss @ [x]" by (cases "p_parts p" rule: rev_cases) auto
  with r have "walk (tree s) (if p_root p = [] then cwd s else []) (ss @ [x]) = Inr d"
    by (simp add: resolve_def)
  from walk_snoc [OF this] sx show ?thesis
    by (auto simp: path_is_dir_stat stat_def resolve_def parent_def)
qed

lemma path_mkdir_False:
  "path_mkdir False ex p s = (s', Some e) \<Longrightarrow> s' = s"
  by (erule path_mkdir_cases) auto

lemma path_mkdir_failed_again:
  "path_mkdir par True p s = (s', Some e) \<Longrightarrow> \<exists>e'. path_mkdir par True p s' = (s', Some e')"
proof (induction par "True" p s arbitrary: s' e rule: path_mkdir.induct)
  case (1 parents p s)
  from "1.prems" show ?case
  proof (cases rule: path_mkdir_cases)
    case made
    then show ?thesis by simp
  next
    case missing
    with "1.prems" show ?thesis by auto
  next
    case (other e')
    with "1.prems" show ?thesis by auto
  next
    case (parent_failed e1)
    with "1.hyps"(1) obtain e2 where again: "path_mkdir True True (parent p) s' = (s', Some e2)"
      by blast
    from path_mkdir_failed [OF parent_failed(4)] have nd: "\<not> path_is_dir s' (parent p)" .
    then have ndp: "\<not> path_is_dir s' p" using is_dir_parent by blast
    show ?thesis
    proof (cases "os_mkdir s' p")
      case (Inr s2)
      from os_mkdir_parent_dir [OF Inr] nd show ?thesis by simp
    next
      case (Inl x)
      with again ndp parent_failed(2,3) show ?thesis
        by (auto simp: path_mkdir.simps [of _ True p s'])
    qed
  next
    case (parent_made s1)
    from parent_made(5) path_mkdir_False have s1: "s' = s1" by blast
    with parent_made(5) have f: "path_mkdir False True p s1 = (s1, Some e)" by simp
    have pd: "path_mkdir True True (parent p) s1 = (s1, None)"
      by (rule path_mkdir_of_dir) (rule path_mkdir_is_dir [OF parent_made(4)])
    show ?thesis
      using f pd parent_made(2,3) s1
      by (cases "os_mkdir s1 p") (auto simp: path_mkdir.simps [of _ True p s1] split: if_splits)
  qed
qed

section \<open>The steps of the scaffold builder\<close>

lemma walk_upd_nondir:
  "walk t cur ss = Inr r \<Longrightarrow> t d \<noteq> Some Dir \<Longrightarrow> walk (t(d \<mapsto> n)) cur ss = Inr r"
proof (induction ss arbitrary: cur)
  case Nil
  then show ?case by simp
next
  case (Cons x ss)
  from Cons.prems(1) have c: "t cur = Some Dir"
    by (auto split: option.splits node.splits)
  with Cons.prems(2) have ne: "cur \<noteq> d" by auto
  from Cons.prems(1) c have "walk t (if x = DOTDOT then butlast cur else cur @ [x]) ss = Inr r"
    by simp
  from Cons.IH [OF this Cons.prems(2)] c ne show ?case by simp
qed

lemma write_text_unfold:
  "write_text p data s =
     (case resolve s p of
        Inl e \<Rightarrow> (s, Some e)
      | Inr d \<Rightarrow>
          (case tree s d of
             Some Dir \<Rightarrow> (s, Some IsADirectoryError)
           | _ \<Rightarrow>
               if utf8_encodable data then (s\<lparr>tree := (tree s)(d \<mapsto> File data)\<rparr>, None)
               else (s\<lparr>tree := (tree s)(d \<mapsto> File [])\<rparr>, Some UnicodeEncodeError)))"
  by (auto simp: write_text_def open_w_def split: sum.splits option.splits node.splits)

lemma write_text_failed:
  "write_text p c s = (s', Some e) \<Longrightarrow> utf8_encodable c \<Longrightarrow> s' = s"
  by (auto simp: write_text_unfold split: sum.splits option.splits node.splits)

lemma write_text_stat: "write_text p c s = (s', None) \<Longrightarrow> stat s' p = Inr (File c)"
proof -
  assume w: "write_text p c s = (s', None)"
  then obtain d where r: "resolve s p = Inr d" and nd: "tree s d \<noteq> Some Dir"
    and s': "s' = s\<lparr>tree := (tree s)(d \<mapsto> File c)\<rparr>"
    by (auto simp: write_text_unfold split: sum.splits option.splits node.splits if_splits)
  from r nd have "resolve s' p = Inr d"
    by (auto simp: resolve_def s' intro!: walk_upd_nondir split: if_splits)
  then show ?thesis by (simp add: stat_def s')
qed

lemma write_text_le: "\<not> path_exists s p \<Longrightarrow> write_text p c s = (s', r) \<Longrightarrow> fs_le s s'"
  by (auto simp: path_exists_stat stat_def write_text_unfold fs_le_def map_le_def
      split: sum.splits option.splits node.splits if_splits)

text \<open>A text without encoding leaves the file empty.\<close>

lemma write_text_unencodable:
  assumes "resolve s p = Inr d" and "tree s d \<noteq> Some Dir" and "\<not> utf8_encodable c"
  shows "\<exists>s2. write_text p c s = (s2, Some UnicodeEncodeError) \<and> stat s2 p = Inr (File [])"
proof -
  define s2 where "s2 = s\<lparr>tree := (tree s)(d \<mapsto> File [])\<rparr>"
  from assms have w: "write_text p c s = (s2, Some UnicodeEncodeError)"
    by (auto simp: write_text_unfold s2_def split: option.splits node.splits)
  from assms(1,2) have "resolve s2 p = Inr d"
    by (auto simp: resolve_def s2_def intro!: walk_upd_nondir split: if_splits)
  then have "stat s2 p = Inr (File [])" by (simp add: stat_def s2_def)
  with w show ?thesis by blast
qed

lemma reaches_write_iff:
  "reaches_write force s target \<longleftrightarrow> \<not> path_exists s target \<or> (force \<and> path_is_file s target)"
  by (auto simp: reaches_write_def)

lemma scaffold_entry_dir:
  "scaffold_entry root_abs False force c (rel, True) s =
     (case path_mkdir True True (joinpath root_abs (Path rel)) s of
        (s1, Some err) \<Rightarrow> (s1, Inl err)
      | (s1, None) \<Rightarrow> (s1, Inr (action_of root_abs (rel, True))))"
  by (auto simp: scaffold_entry_def action_of_def Let_def split: prod.splits option.splits)

lemma scaffold_entry_file:
  "scaffold_entry root_abs False force c (rel, False) s =
     (case path_mkdir True True (parent (joinpath root_abs (Path rel))) s of
        (s1, Some err) \<Rightarrow> (s1, Inl err)
      | (s1, None) \<Rightarrow>
          if reaches_write force s1 (joinpath root_abs (Path rel))
          then (case write_text (joinpath root_abs (Path rel)) (content_or_empty c) s1 of
                  (s2, Some err) \<Rightarrow> (s2, Inl err)
                | (s2, None) \<Rightarrow> (s2, Inr (action_of root_abs (rel, False))))
          else (s1, Inr (action_of root_abs (rel, False))))"
  by (auto simp: scaffold_entry_def action_of_def Let_def split: prod.splits option.splits)

lemma scaffold_entry_dry:
  "scaffold_entry root_abs True force c e s = (s, Inr (action_of root_abs e))"
  by (cases e) (simp add: scaffold_entry_def action_of_def Let_def)

lemma scaffold_entry_action:
  "scaffold_entry root_abs dry force c e s = (s', Inr a) \<Longrightarrow> a = action_of root_abs e"
proof (cases dry)
  case True
  assume "scaffold_entry root_abs dry force c e s = (s', Inr a)"
  with True show ?thesis by (simp add: scaffold_entry_dry)
next
  case False
  assume r: "scaffold_entry root_abs dry force c e s = (s', Inr a)"
  obtain rel d where e: "e = (rel, d)" by (cases e)
  show ?thesis
  proof (cases d)
    case True
    with r False e show ?thesis
      by (auto simp: scaffold_entry_dir split: prod.splits option.splits)
  next
    case d: False
    with r False e show ?thesis
      by (auto simp: scaffold_entry_file split: prod.splits option.splits if_splits)
  qed
qed

lemma scaffold_entry_le:
  assumes "scaffold_entry root_abs dry False c e s = (s', r)"
  shows "fs_le s s'"
proof (cases dry)
  case True
  with assms show ?thesis by (simp add: scaffold_entry_dry fs_le_refl)
next
  case False
  obtain rel d where e: "e = (rel, d)" by (cases e)
  show ?thesis
  proof (cases d)
    case True
    with assms False e show ?thesis
      by (auto simp: scaffold_entry_dir split: prod.splits option.splits dest: path_mkdir_le)
  next
    case d: False
    obtain s1 r1 where pm: "path_mkdir True True (parent (joinpath root_abs (Path rel))) s = (s1, r1)"
      by (cases "path_mkdir True True (parent (joinpath root_abs (Path rel))) s") auto
    from path_mkdir_le [OF pm] have le1: "fs_le s s1" .
    show ?thesis
    proof (cases "r1 = None \<and> reaches_write False s1 (joinpath root_abs (Path rel))")
      case False
      with assms \<open>\<not> dry\<close> e d pm have "s' = s1"
        by (auto simp: scaffold_entry_file split: option.splits)
      with le1 show ?thesis by simp
    next
      case True
      obtain s2 r2 where w: "write_text (joinpath root_abs (Path rel)) (content_or_empty c) s1 = (s2, r2)"
        by (cases "write_text (joinpath root_abs (Path rel)) (content_or_empty c) s1") auto
      from True have "\<not> path_exists s1 (joinpath root_abs (Path rel))"
        by (simp add: reaches_write_iff)
      from write_text_le [OF this w] have le2: "fs_le s1 s2" .
      from assms \<open>\<not> dry\<close> e d pm True w have "s' = s2"
        by (auto simp: scaffold_entry_file split: option.splits)
      with le1 le2 show ?thesis by (auto intro: fs_le_trans)
    qed
  qed
qed

lemma is_file_parent_dir:
  assumes "stat s p = Inr (File x)" and "p_parts p \<noteq> []"
  shows "path_is_dir s (parent p)"
proof -
  from assms(2) obtain ss y where sy: "p_parts p = ss @ [y]"
    by (cases "p_parts p" rule: rev_cases) auto
  from assms(1) obtain d where "walk (tree s) (if p_root p = [] then cwd s else []) (ss @ [y]) = Inr d"
    using sy by (auto simp: stat_def resolve_def split: sum.splits)
  from walk_snoc [OF this] sy show ?thesis
    by (auto simp: path_is_dir_stat stat_def resolve_def parent_def)
qed

text \<open>A step that returned changes nothing when it is run again in a later state.\<close>

lemma scaffold_entry_stable:
  assumes r: "scaffold_entry root_abs False False c e s = (s1, Inr a)" and le: "fs_le s1 t"
  shows "scaffold_entry root_abs False False c e t = (t, Inr a)"
proof -
  obtain rel d where e: "e = (rel, d)" by (cases e)
  define target where "target = joinpath root_abs (Path rel)"
  show ?thesis
  proof (cases d)
    case True
    from r e True have pm: "path_mkdir True True target s = (s1, None)" and a: "a = action_of root_abs (rel, True)"
      by (auto simp: scaffold_entry_dir target_def split: prod.splits option.splits)
    from path_mkdir_is_dir [OF pm] le have "path_is_dir t target" by (simp add: path_is_dir_mono)
    then have "path_mkdir True True target t = (t, None)" by (rule path_mkdir_of_dir)
    with e True a show ?thesis by (simp add: scaffold_entry_dir target_def)
  next
    case False
    from r e False obtain s0 where pm: "path_mkdir True True (parent target) s = (s0, None)"
      by (auto simp: scaffold_entry_file target_def split: prod.splits option.splits)
    from r e False have a: "a = action_of root_abs (rel, False)"
      by (auto dest: scaffold_entry_action)
    have le0: "fs_le s0 s1" and ex: "path_exists s1 target"
    proof -
      show "fs_le s0 s1"
      proof (cases "reaches_write False s0 target")
        case True
        then have ne: "\<not> path_exists s0 target" by (simp add: reaches_write_iff)
        from r e False pm True have "write_text target (content_or_empty c) s0 = (s1, None)"
          by (auto simp: scaffold_entry_file target_def split: prod.splits option.splits)
        from write_text_le [OF ne this] show ?thesis .
      next
        case False
        with r e \<open>\<not> d\<close> pm have "s1 = s0"
          by (auto simp: scaffold_entry_file target_def split: prod.splits option.splits)
        then show ?thesis by (simp add: fs_le_refl)
      qed
      show "path_exists s1 target"
      proof (cases "reaches_write False s0 target")
        case True
        with r e False pm have "write_text target (content_or_empty c) s0 = (s1, None)"
          by (auto simp: scaffold_entry_file target_def split: prod.splits option.splits)
        from write_text_stat [OF this] show ?thesis by (simp add: path_exists_stat)
      next
        case False
        with r e \<open>\<not> d\<close> pm have "s1 = s0"
          by (auto simp: scaffold_entry_file target_def split: prod.splits option.splits)
        with False show ?thesis by (simp add: reaches_write_iff)
      qed
    qed
    from path_mkdir_is_dir [OF pm] le0 le have "path_is_dir t (parent target)"
      by (blast intro: path_is_dir_mono)
    then have pmt: "path_mkdir True True (parent target) t = (t, None)" by (rule path_mkdir_of_dir)
    from ex le have "path_exists t target" by (blast intro: path_exists_mono)
    then have "\<not> reaches_write False t target" by (simp add: reaches_write_iff)
    with pmt e False a show ?thesis by (simp add: scaffold_entry_file target_def)
  qed
qed

text \<open>
  A step that raised raises again in the state it left, where the content has an
  encoding.
\<close>

lemma scaffold_entry_failed_again:
  assumes r: "scaffold_entry root_abs False False c e s = (s1, Inl x)"
      and enc: "utf8_encodable (content_or_empty c)"
  shows "\<exists>x'. scaffold_entry root_abs False False c e s1 = (s1, Inl x')"
proof -
  obtain rel d where e: "e = (rel, d)" by (cases e)
  define target where "target = joinpath root_abs (Path rel)"
  show ?thesis
  proof (cases d)
    case True
    from r e True have "path_mkdir True True target s = (s1, Some x)"
      by (auto simp: scaffold_entry_dir target_def split: prod.splits option.splits)
    from path_mkdir_failed_again [OF this] e True show ?thesis
      by (auto simp: scaffold_entry_dir target_def)
  next
    case False
    obtain s0 r0 where pm: "path_mkdir True True (parent target) s = (s0, r0)"
      by (cases "path_mkdir True True (parent target) s") auto
    show ?thesis
    proof (cases r0)
      case (Some x0)
      with r e False pm have "s1 = s0" by (auto simp: scaffold_entry_file target_def)
      with path_mkdir_failed_again pm Some e False show ?thesis
        by (fastforce simp: scaffold_entry_file target_def)
    next
      case None
      with r e False pm have rw: "reaches_write False s0 target"
        and w: "write_text target (content_or_empty c) s0 = (s1, Some x)"
        by (auto simp: scaffold_entry_file target_def split: prod.splits option.splits if_splits)
      from write_text_failed [OF w enc] have s1: "s1 = s0" .
      from path_mkdir_is_dir pm None have "path_is_dir s0 (parent target)" by blast
      then have "path_mkdir True True (parent target) s0 = (s0, None)" by (rule path_mkdir_of_dir)
      with rw w s1 e False show ?thesis by (auto simp: scaffold_entry_file target_def)
    qed
  qed
qed

lemma scaffold_loop_le:
  "scaffold_loop root_abs dry False c es acts s = (s', r) \<Longrightarrow> fs_le s s'"
proof (induction es arbitrary: acts s)
  case Nil
  then show ?case by (simp add: fs_le_refl)
next
  case (Cons e es)
  obtain s1 r1 where st: "scaffold_entry root_abs dry False c e s = (s1, r1)"
    by (cases "scaffold_entry root_abs dry False c e s") auto
  from scaffold_entry_le [OF st] have le: "fs_le s s1" .
  show ?case
  proof (cases r1)
    case (Inl x)
    with Cons.prems st have "s' = s1" by simp
    with le show ?thesis by simp
  next
    case (Inr a)
    with Cons.prems st have "scaffold_loop root_abs dry False c es (acts @ [a]) s1 = (s', r)" by simp
    from Cons.IH [OF this] le show ?thesis by (blast intro: fs_le_trans)
  qed
qed

lemma scaffold_loop_stable:
  assumes "scaffold_loop root_abs False False c es acts s = (s', r)"
      and "fs_le s' t"
      and "\<And>x. r = Inl x \<Longrightarrow> t = s' \<and> utf8_encodable (content_or_empty c)"
  shows "fst (scaffold_loop root_abs False False c es acts' t) = t"
  using assms
proof (induction es arbitrary: acts acts' s)
  case Nil
  then show ?case by simp
next
  case (Cons e es)
  obtain s1 r1 where st: "scaffold_entry root_abs False False c e s = (s1, r1)"
    by (cases "scaffold_entry root_abs False False c e s") auto
  show ?case
  proof (cases r1)
    case (Inl x)
    with Cons.prems(1) st have "s' = s1" "r = Inl x" by simp_all
    with Cons.prems(3) have "t = s1" and "utf8_encodable (content_or_empty c)" by simp_all
    with scaffold_entry_failed_again st Inl show ?thesis by fastforce
  next
    case (Inr a)
    with Cons.prems(1) st have l: "scaffold_loop root_abs False False c es (acts @ [a]) s1 = (s', r)"
      by simp
    from scaffold_loop_le [OF l] Cons.prems(2) have "fs_le s1 t" by (blast intro: fs_le_trans)
    with st Inr have "scaffold_entry root_abs False False c e t = (t, Inr a)"
      by (simp add: scaffold_entry_stable)
    with Cons.IH [OF l Cons.prems(2,3)] show ?thesis by simp
  qed
qed

lemma create_scaffold_le:
  "fs_le s (fst (create_scaffold root entries base_root dry False c s))"
proof (cases dry)
  case True
  obtain s' r where "scaffold_loop (joinpath base_root root) True False c entries
      [(ascii ''mkdir'', path_str (joinpath base_root root))] s = (s', r)"
    by (cases "scaffold_loop (joinpath base_root root) True False c entries
      [(ascii ''mkdir'', path_str (joinpath base_root root))] s") auto
  with True scaffold_loop_le [OF this] show ?thesis
    by (simp add: create_scaffold_def Let_def)
next
  case False
  obtain s1 r1 where pm: "path_mkdir True True (joinpath base_root root) s = (s1, r1)"
    by (cases "path_mkdir True True (joinpath base_root root) s") auto
  from path_mkdir_le [OF pm] have le: "fs_le s s1" .
  show ?thesis
  proof (cases r1)
    case (Some e)
    with False pm le show ?thesis by (simp add: create_scaffold_def Let_def)
  next
    case None
    obtain s' r where l: "scaffold_loop (joinpath base_root root) False False c entries
        [(ascii ''mkdir'', path_str (joinpath base_root root))] s1 = (s', r)"
      by (cases "scaffold_loop (joinpath base_root root) False False c entries
        [(ascii ''mkdir'', path_str (joinpath base_root root))] s1") auto
    from scaffold_loop_le [OF l] le have "fs_le s s'" by (blast intro: fs_le_trans)
    with False pm None l show ?thesis by (simp add: create_scaffold_def Let_def)
  qed
qed

lemma create_scaffold_idem:
  assumes "utf8_encodable (content_or_empty c)
     \<or> (\<exists>acts. snd (create_scaffold root entries base_root False False c s) = Inr acts)"
  shows "fst (create_scaffold root entries base_root False False c
          (fst (create_scaffold root entries base_root False False c s)))
   = fst (create_scaffold root entries base_root False False c s)"
proof -
  define R where "R = joinpath base_root root"
  define A where "A = [(ascii ''mkdir'', path_str R)]"
  have unf: "\<And>u. create_scaffold root entries base_root False False c u =
      (case path_mkdir True True R u of (s1, Some err) \<Rightarrow> (s1, Inl err)
        | (s1, None) \<Rightarrow> scaffold_loop R False False c entries A s1)"
    by (auto simp: create_scaffold_def Let_def R_def A_def split: prod.splits option.splits)
  obtain s1 r1 where pm: "path_mkdir True True R s = (s1, r1)"
    by (cases "path_mkdir True True R s") auto
  show ?thesis
  proof (cases r1)
    case (Some e)
    from path_mkdir_failed_again pm Some obtain e' where "path_mkdir True True R s1 = (s1, Some e')"
      by blast
    with pm Some show ?thesis by (simp add: unf)
  next
    case None
    obtain s' r where l: "scaffold_loop R False False c entries A s1 = (s', r)"
      by (cases "scaffold_loop R False False c entries A s1") auto
    from path_mkdir_is_dir pm None have "path_is_dir s1 R" by blast
    with scaffold_loop_le [OF l] have "path_is_dir s' R" by (blast intro: path_is_dir_mono)
    then have pm': "path_mkdir True True R s' = (s', None)" by (rule path_mkdir_of_dir)
    have enc: "utf8_encodable (content_or_empty c)" if "r = Inl x" for x
      using assms that pm None l by (auto simp: unf)
    have "fst (scaffold_loop R False False c entries A s') = s'"
      by (rule scaffold_loop_stable [OF l]) (simp_all add: fs_le_refl enc)
    with pm None l pm' show ?thesis by (simp add: unf)
  qed
qed

lemma scaffold_entry_existing_file:
  assumes "stat t (joinpath root_abs (Path rel)) = Inr (File x)"
  shows "fst (scaffold_entry root_abs False False c (rel, False) t) = t"
proof -
  define target where "target = joinpath root_abs (Path rel)"
  from assms have ex: "path_exists t target" by (auto simp: path_exists_stat target_def)
  obtain s1 r1 where pm: "path_mkdir True True (parent target) t = (s1, r1)"
    by (cases "path_mkdir True True (parent target) t") auto
  have s1: "s1 = t"
  proof (cases "p_parts target = []")
    case True
    then have pt: "parent target = target" by (simp add: parent_def)
    from assms have "\<not> path_is_dir t target" by (simp add: path_is_dir_stat target_def)
    with pm pt show ?thesis
      by (auto simp: path_mkdir.simps [of _ True target t] os_mkdir_def True)
  next
    case False
    from is_file_parent_dir [OF assms [folded target_def] False]
    have "path_mkdir True True (parent target) t = (t, None)" by (rule path_mkdir_of_dir)
    with pm show ?thesis by simp
  qed
  from ex have "\<not> reaches_write False t target" by (simp add: reaches_write_iff)
  with pm s1 show ?thesis
    by (cases r1) (simp_all add: scaffold_entry_file target_def)
qed

lemma scaffold_loop_actions:
  "scaffold_loop root_abs dry force c es acts s = (s', Inr out) \<Longrightarrow>
     out = acts @ map (action_of root_abs) es"
proof (induction es arbitrary: acts s)
  case Nil
  then show ?case by simp
next
  case (Cons e es)
  obtain s1 r1 where st: "scaffold_entry root_abs dry force c e s = (s1, r1)"
    by (cases "scaffold_entry root_abs dry force c e s") auto
  show ?case
  proof (cases r1)
    case (Inl x)
    with Cons.prems st show ?thesis by simp
  next
    case (Inr a)
    with Cons.prems st have "scaffold_loop root_abs dry force c es (acts @ [a]) s1 = (s', Inr out)"
      by simp
    from Cons.IH [OF this] scaffold_entry_action st Inr show ?thesis by fastforce
  qed
qed

lemma scaffold_loop_dry:
  "scaffold_loop root_abs True force c es acts s = (s, Inr (acts @ map (action_of root_abs) es))"
  by (induction es arbitrary: acts) (simp_all add: scaffold_entry_dry)

lemma create_scaffold_dry:
  "create_scaffold root entries base_root True force c s =
     (s, Inr (planned_actions root entries base_root))"
  by (simp add: create_scaffold_def Let_def scaffold_loop_dry planned_actions_def)

lemma create_scaffold_actions:
  "snd (create_scaffold root entries base_root dry force c s) = Inr acts \<Longrightarrow>
     acts = planned_actions root entries base_root"
proof (cases dry)
  case True
  assume "snd (create_scaffold root entries base_root dry force c s) = Inr acts"
  with True show ?thesis by (simp add: create_scaffold_dry)
next
  case False
  assume r: "snd (create_scaffold root entries base_root dry force c s) = Inr acts"
  obtain s1 r1 where pm: "path_mkdir True True (joinpath base_root root) s = (s1, r1)"
    by (cases "path_mkdir True True (joinpath base_root root) s") auto
  show ?thesis
  proof (cases r1)
    case (Some e)
    with r False pm show ?thesis by (simp add: create_scaffold_def Let_def)
  next
    case None
    obtain s' where "scaffold_loop (joinpath base_root root) False force c entries
        [(ascii ''mkdir'', path_str (joinpath base_root root))] s1 = (s', Inr acts)"
      using r False pm None
      by (cases "scaffold_loop (joinpath base_root root) False force c entries
        [(ascii ''mkdir'', path_str (joinpath base_root root))] s1")
         (auto simp: create_scaffold_def Let_def)
    from scaffold_loop_actions [OF this] show ?thesis by (simp add: planned_actions_def)
  qed
qed

lemma write_text_ok:
  "resolve s p = Inr d \<Longrightarrow> tree s d \<noteq> Some Dir \<Longrightarrow> utf8_encodable c \<Longrightarrow>
     \<exists>s2. write_text p c s = (s2, None)"
  by (auto simp: write_text_unfold split: option.splits node.splits)

lemma resolve_of_parent:
  assumes "path_is_dir s (parent p)"
  shows "\<exists>d. resolve s p = Inr d"
proof (cases "p_parts p" rule: rev_cases)
  case Nil
  then show ?thesis by (simp add: resolve_def)
next
  case (snoc ss x)
  from assms snoc obtain d0 where "walk (tree s) (if p_root p = [] then cwd s else []) ss = Inr d0"
    and "tree s d0 = Some Dir"
    by (auto simp: path_is_dir_stat stat_def resolve_def parent_def split: sum.splits option.splits)
  from walk_snoc_dir [OF this] snoc show ?thesis by (simp add: resolve_def)
qed

section \<open>The write policy\<close>

text \<open>
  C4, as stated, fails: a file that exists and is empty is not written without
  \<open>force\<close>. With \<open>/r/a\<close> an empty file and the default content \<open>x\<close>, the run without
  \<open>force\<close> records the touch and leaves the file system as it was; the file stays
  empty.
\<close>

theorem C4_empty_file_kept:
  "stat fs_empty_file (Path (ascii ''/r/a'')) = Inr (File [])
   \<and> content_or_empty (Some (ascii ''x'')) = ascii ''x''
   \<and> create_scaffold (Path (ascii ''r'')) [(ascii ''a'', False)] (Path (ascii ''/'')) False False
        (Some (ascii ''x'')) fs_empty_file
      = (fs_empty_file, Inr [(ascii ''mkdir'', ascii ''/r''), (ascii ''touch'', ascii ''/r/a'')])"
  by (simp add: fs_empty_file_def fs_defs str_defs path_defs)

text \<open>
  C4, amended. Take a file entry in a run that is not dry, with a target inside the
  limits of the file system, and let \<open>s1\<close> be the state in which the existence of the
  target is checked, after the chain of parent directories has been made without error.
  If the target does not exist in \<open>s1\<close>, or \<open>force\<close> is set and the target is a regular
  file, empty or not, the file is opened for writing. Where the default content (the
  empty string where there is none) has a UTF-8 encoding, it becomes the whole content
  of the file and the touch action is recorded; where it has none, the file is left
  empty and \<open>UnicodeEncodeError\<close> leaves the function. If the target exists and \<open>force\<close>
  is not set, or the target exists and is not a regular file, the state stays \<open>s1\<close> and
  the touch action is recorded.
\<close>

theorem C4_write_policy:
  assumes t: "target = joinpath root_abs (Path rel)"
      and lim: "path_within_limits target"
      and m: "path_mkdir True True (parent target) s = (s1, None)"
  shows "((\<not> path_exists s1 target \<or> (force \<and> path_is_file s1 target))
            \<and> utf8_encodable (content_or_empty c) \<longrightarrow>
            (\<exists>s2. scaffold_entry root_abs False force c (rel, False) s
                     = (s2, Inr (ascii ''touch'', path_str target))
                 \<and> stat s2 target = Inr (File (content_or_empty c))))
       \<and> ((\<not> path_exists s1 target \<or> (force \<and> path_is_file s1 target))
            \<and> \<not> utf8_encodable (content_or_empty c) \<longrightarrow>
            (\<exists>s2. scaffold_entry root_abs False force c (rel, False) s
                     = (s2, Inl UnicodeEncodeError)
                 \<and> stat s2 target = Inr (File [])))
       \<and> (path_exists s1 target \<and> \<not> (force \<and> path_is_file s1 target) \<longrightarrow>
            scaffold_entry root_abs False force c (rel, False) s
              = (s1, Inr (ascii ''touch'', path_str target)))"
proof (intro conjI impI)
  assume a: "(\<not> path_exists s1 target \<or> (force \<and> path_is_file s1 target))
      \<and> utf8_encodable (content_or_empty c)"
  then have rw: "reaches_write force s1 target" by (simp add: reaches_write_iff)
  from path_mkdir_is_dir [OF m] resolve_of_parent obtain d where r: "resolve s1 target = Inr d"
    by blast
  from a r have "tree s1 d \<noteq> Some Dir"
    by (auto simp: path_exists_stat path_is_file_stat stat_def split: option.splits)
  from write_text_ok [OF r this] a obtain s2 where
    w: "write_text target (content_or_empty c) s1 = (s2, None)" by blast
  from m rw w have "scaffold_entry root_abs False force c (rel, False) s
      = (s2, Inr (ascii ''touch'', path_str target))"
    by (simp add: scaffold_entry_file t [symmetric] action_of_def)
  with write_text_stat [OF w]
  show "\<exists>s2. scaffold_entry root_abs False force c (rel, False) s
                     = (s2, Inr (ascii ''touch'', path_str target))
                 \<and> stat s2 target = Inr (File (content_or_empty c))" by blast
next
  assume a: "(\<not> path_exists s1 target \<or> (force \<and> path_is_file s1 target))
      \<and> \<not> utf8_encodable (content_or_empty c)"
  then have rw: "reaches_write force s1 target" by (simp add: reaches_write_iff)
  from path_mkdir_is_dir [OF m] resolve_of_parent obtain d where r: "resolve s1 target = Inr d"
    by blast
  from a r have "tree s1 d \<noteq> Some Dir"
    by (auto simp: path_exists_stat path_is_file_stat stat_def split: option.splits)
  from write_text_unencodable [OF r this] a obtain s2 where
    w: "write_text target (content_or_empty c) s1 = (s2, Some UnicodeEncodeError)"
    and st: "stat s2 target = Inr (File [])" by blast
  from m rw w have "scaffold_entry root_abs False force c (rel, False) s
      = (s2, Inl UnicodeEncodeError)"
    by (simp add: scaffold_entry_file t [symmetric])
  with st
  show "\<exists>s2. scaffold_entry root_abs False force c (rel, False) s
                     = (s2, Inl UnicodeEncodeError)
                 \<and> stat s2 target = Inr (File [])" by blast
next
  assume "path_exists s1 target \<and> \<not> (force \<and> path_is_file s1 target)"
  then have "\<not> reaches_write force s1 target" by (simp add: reaches_write_iff)
  with m show "scaffold_entry root_abs False force c (rel, False) s
              = (s1, Inr (ascii ''touch'', path_str target))"
    by (simp add: scaffold_entry_file t [symmetric] action_of_def)
qed

theorem C4_write_policy_witness:
  "(\<exists>s2. scaffold_entry (Path (ascii ''/r'')) False False (Some (ascii ''x'')) (ascii ''a'', False) fs_root
           = (s2, Inr (ascii ''touch'', ascii ''/r/a''))
         \<and> stat s2 (Path (ascii ''/r/a'')) = Inr (File (ascii ''x'')))
   \<and> scaffold_entry (Path (ascii ''/r'')) False False (Some (ascii ''x'')) (ascii ''a'', False) fs_with_file
       = (fs_with_file, Inr (ascii ''touch'', ascii ''/r/a''))
   \<and> stat fs_with_file (Path (ascii ''/r/a'')) = Inr (File (ascii ''old''))
   \<and> (\<exists>s2. scaffold_entry (Path (ascii ''/r'')) False True (Some [0xDCFF]) (ascii ''a'', False) fs_with_file
           = (s2, Inl UnicodeEncodeError)
         \<and> stat s2 (Path (ascii ''/r/a'')) = Inr (File []))"
proof -
  have t: "Path (ascii ''/r/a'') = joinpath (Path (ascii ''/r'')) (Path (ascii ''a''))"
    by (simp add: str_defs path_defs)
  have lim: "path_within_limits (Path (ascii ''/r/a''))"
    by (simp add: fs_defs str_defs path_defs)
  have m1: "path_mkdir True True (parent (Path (ascii ''/r/a''))) fs_root = (fs_with_dir, None)"
    by (simp add: fs_root_def fs_with_dir_def fs_defs str_defs path_defs)
  have n1: "\<not> path_exists fs_with_dir (Path (ascii ''/r/a''))"
    by (simp add: fs_with_dir_def fs_defs str_defs path_defs)
  have m2: "path_mkdir True True (parent (Path (ascii ''/r/a''))) fs_with_file = (fs_with_file, None)"
    by (simp add: fs_with_file_def fs_defs str_defs path_defs)
  have n2: "path_exists fs_with_file (Path (ascii ''/r/a''))"
    by (simp add: fs_with_file_def fs_defs str_defs path_defs)
  have f2: "path_is_file fs_with_file (Path (ascii ''/r/a''))"
    by (simp add: fs_with_file_def fs_defs str_defs path_defs)
  have p: "path_str (Path (ascii ''/r/a'')) = ascii ''/r/a''"
    by (simp add: str_defs path_defs)
  have st: "stat fs_with_file (Path (ascii ''/r/a'')) = Inr (File (ascii ''old''))"
    by (simp add: fs_with_file_def fs_defs str_defs path_defs)
  have e1: "utf8_encodable (content_or_empty (Some (ascii ''x'')))"
    by (simp add: fs_defs str_defs)
  have e2: "\<not> utf8_encodable (content_or_empty (Some [0xDCFF]))"
    by (simp add: fs_defs)
  from C4_write_policy [OF t lim m1, of False "Some (ascii ''x'')"] n1 e1
       C4_write_policy [OF t lim m2, of False "Some (ascii ''x'')"] n2
       C4_write_policy [OF t lim m2, of True "Some [0xDCFF]"] f2 e2 p st
  show ?thesis by (simp add: content_or_empty_def)
qed

section \<open>Running the scaffold builder twice\<close>

text \<open>
  C7, as stated, fails: a write can fail after the file has been made. With the default
  content U+DCFF, which has no encoding, and the file entries \<open>a\<close> and \<open>b\<close>, the first
  run makes \<open>/r/a\<close>, leaves it empty and raises \<open>UnicodeEncodeError\<close>; \<open>/r/b\<close> is not
  there. The second run finds \<open>/r/a\<close>, skips it, and makes \<open>/r/b\<close> before it raises:
  the state after two runs is not the state after one.
\<close>

theorem C7_unencodable_content:
  "create_scaffold (Path (ascii ''r'')) [(ascii ''a'', False), (ascii ''b'', False)]
      (Path (ascii ''/'')) False False (Some [0xDCFF]) fs_root
     = (fs_empty_file, Inl UnicodeEncodeError)
   \<and> tree fs_empty_file [ascii ''r'', ascii ''b''] = None
   \<and> snd (create_scaffold (Path (ascii ''r'')) [(ascii ''a'', False), (ascii ''b'', False)]
        (Path (ascii ''/'')) False False (Some [0xDCFF]) fs_empty_file)
     = Inl UnicodeEncodeError
   \<and> tree (fst (create_scaffold (Path (ascii ''r'')) [(ascii ''a'', False), (ascii ''b'', False)]
        (Path (ascii ''/'')) False False (Some [0xDCFF]) fs_empty_file)) [ascii ''r'', ascii ''b'']
     = Some (File [])"
  by (simp add: fs_root_def fs_empty_file_def fs_defs str_defs path_defs)

text \<open>
  C7, amended. Without \<open>force\<close> and without a dry run, where the default content has a
  UTF-8 encoding or the first run returns its action list, the state of the file system
  after two runs in sequence over the same root, entries and base is the state after
  one run; with an encodable content this holds also where the runs end in an error.
  And in every state, so in every state of the second run, a file entry whose target is
  a file with content leaves the state as it is: nothing is written.
\<close>

theorem C7_idempotent:
  "(utf8_encodable (content_or_empty c)
      \<or> (\<exists>acts. snd (create_scaffold root entries base_root False False c s) = Inr acts)
     \<longrightarrow> fst (create_scaffold root entries base_root False False c
                 (fst (create_scaffold root entries base_root False False c s)))
          = fst (create_scaffold root entries base_root False False c s))
   \<and> (stat t (joinpath root_abs (Path rel)) = Inr (File x) \<and> x \<noteq> [] \<longrightarrow>
        fst (scaffold_entry root_abs False False c (rel, False) t) = t)"
  by (simp add: create_scaffold_idem scaffold_entry_existing_file)

theorem C7_idempotent_witness:
  "fst (create_scaffold (Path (ascii ''r'')) [(ascii ''a'', True), (ascii ''a/b.txt'', False)]
          (Path (ascii ''/'')) False False (Some (ascii ''x''))
          (fst (create_scaffold (Path (ascii ''r'')) [(ascii ''a'', True), (ascii ''a/b.txt'', False)]
                  (Path (ascii ''/'')) False False (Some (ascii ''x'')) fs_root)))
     = fst (create_scaffold (Path (ascii ''r'')) [(ascii ''a'', True), (ascii ''a/b.txt'', False)]
              (Path (ascii ''/'')) False False (Some (ascii ''x'')) fs_root)
   \<and> utf8_encodable (content_or_empty (Some (ascii ''x'')))
   \<and> stat fs_with_file (joinpath (Path (ascii ''/r'')) (Path (ascii ''a''))) = Inr (File (ascii ''old''))
   \<and> fst (scaffold_entry (Path (ascii ''/r'')) False False (Some (ascii ''x'')) (ascii ''a'', False)
             fs_with_file) = fs_with_file"
proof -
  have enc: "utf8_encodable (content_or_empty (Some (ascii ''x'')))"
    by (simp add: fs_defs str_defs)
  have st: "stat fs_with_file (joinpath (Path (ascii ''/r'')) (Path (ascii ''a''))) = Inr (File (ascii ''old''))"
    by (simp add: fs_with_file_def fs_defs str_defs path_defs)
  have ne: "ascii ''old'' \<noteq> []" by (simp add: ascii_def)
  from C7_idempotent [of "Some (ascii ''x'')" "Path (ascii ''r'')"
      "[(ascii ''a'', True), (ascii ''a/b.txt'', False)]" "Path (ascii ''/'')" fs_root
      fs_with_file "Path (ascii ''/r'')" "ascii ''a''" "ascii ''old''"] enc st ne
  show ?thesis by simp
qed

section \<open>The dry run\<close>

text \<open>
  C8, as stated, fails: the run that is not dry can end in an error and then returns no
  list. After the file \<open>/r/a\<close> has been made, \<open>mkdir\<close> for the directory entry of the
  same path raises \<open>FileExistsError\<close>; the dry run returns its three actions.
\<close>

theorem C8_real_run_raises:
  "snd (create_scaffold (Path (ascii ''r'')) [(ascii ''a'', False), (ascii ''a'', True)]
          (Path (ascii ''/'')) False False None fs_root) = Inl FileExistsError
   \<and> snd (create_scaffold (Path (ascii ''r'')) [(ascii ''a'', False), (ascii ''a'', True)]
          (Path (ascii ''/'')) True False None fs_root)
     = Inr [(ascii ''mkdir'', ascii ''/r''), (ascii ''touch'', ascii ''/r/a''),
            (ascii ''mkdir'', ascii ''/r/a'')]"
  by (simp add: fs_root_def fs_defs str_defs path_defs)

text \<open>
  C8, amended. The dry run always returns an action list and leaves the file system as
  it was; and whenever the run that is not dry returns an action list, from the same
  arguments and the same starting state, the dry run returns the same list.
\<close>

theorem C8_dry_run:
  "fst (create_scaffold root entries base_root True force c s) = s
   \<and> (\<exists>acts. snd (create_scaffold root entries base_root True force c s) = Inr acts)
   \<and> (snd (create_scaffold root entries base_root False force c s) = Inr acts \<longrightarrow>
        snd (create_scaffold root entries base_root True force c s) = Inr acts)"
  by (auto simp: create_scaffold_dry dest: create_scaffold_actions)

theorem C8_dry_run_witness:
  "snd (create_scaffold (Path (ascii ''r'')) [(ascii ''a'', True), (ascii ''a/b.txt'', False)]
          (Path (ascii ''/'')) False False None fs_root)
     = Inr [(ascii ''mkdir'', ascii ''/r''), (ascii ''mkdir'', ascii ''/r/a''),
            (ascii ''touch'', ascii ''/r/a/b.txt'')]
   \<and> snd (create_scaffold (Path (ascii ''r'')) [(ascii ''a'', True), (ascii ''a/b.txt'', False)]
          (Path (ascii ''/'')) True False None fs_root)
     = Inr [(ascii ''mkdir'', ascii ''/r''), (ascii ''mkdir'', ascii ''/r/a''),
            (ascii ''touch'', ascii ''/r/a/b.txt'')]
   \<and> fst (create_scaffold (Path (ascii ''r'')) [(ascii ''a'', True), (ascii ''a/b.txt'', False)]
          (Path (ascii ''/'')) True False None fs_root) = fs_root"
proof -
  have h: "snd (create_scaffold (Path (ascii ''r'')) [(ascii ''a'', True), (ascii ''a/b.txt'', False)]
          (Path (ascii ''/'')) False False None fs_root)
     = Inr [(ascii ''mkdir'', ascii ''/r''), (ascii ''mkdir'', ascii ''/r/a''),
            (ascii ''touch'', ascii ''/r/a/b.txt'')]"
    by (simp add: fs_root_def fs_defs str_defs path_defs)
  from C8_dry_run [of "Path (ascii ''r'')" "[(ascii ''a'', True), (ascii ''a/b.txt'', False)]"
      "Path (ascii ''/'')" False None fs_root] h
  show ?thesis by simp
qed

section \<open>Files are kept without force\<close>

text \<open>
  C9. After a run without \<open>force\<close> and without a dry run, every file that was there
  before the run, empty or not, is there with the content it had: at every place of
  the tree, and under every path that led to a file.
\<close>

theorem C9_files_kept:
  "(tree s q = Some (File x) \<longrightarrow>
      tree (fst (create_scaffold root entries base_root False False c s)) q = Some (File x))
   \<and> (stat s p = Inr (File x) \<longrightarrow>
      stat (fst (create_scaffold root entries base_root False False c s)) p = Inr (File x))"
proof -
  have le: "fs_le s (fst (create_scaffold root entries base_root False False c s))"
    by (rule create_scaffold_le)
  then show ?thesis
    by (auto simp: fs_le_def dest: map_le_SomeD stat_mono [OF le])
qed

theorem C9_files_kept_witness:
  "tree fs_empty_file [ascii ''r'', ascii ''a''] = Some (File [])
   \<and> tree (fst (create_scaffold (Path (ascii ''r'')) [(ascii ''a'', False)] (Path (ascii ''/''))
                 False False (Some (ascii ''x'')) fs_empty_file)) [ascii ''r'', ascii ''a'']
       = Some (File [])
   \<and> stat fs_with_file (Path (ascii ''/r/a'')) = Inr (File (ascii ''old''))
   \<and> stat (fst (create_scaffold (Path (ascii ''r'')) [(ascii ''a'', False)] (Path (ascii ''/''))
                 False False (Some (ascii ''x'')) fs_with_file)) (Path (ascii ''/r/a''))
       = Inr (File (ascii ''old''))"
proof -
  have h1: "tree fs_empty_file [ascii ''r'', ascii ''a''] = Some (File [])"
    by (simp add: fs_empty_file_def ascii_def)
  have h2: "stat fs_with_file (Path (ascii ''/r/a'')) = Inr (File (ascii ''old''))"
    by (simp add: fs_with_file_def fs_defs str_defs path_defs)
  from C9_files_kept [of fs_empty_file "[ascii ''r'', ascii ''a'']" "[]" "Path (ascii ''r'')"
      "[(ascii ''a'', False)]" "Path (ascii ''/'')" "Some (ascii ''x'')"] h1
    C9_files_kept [of fs_with_file _ "ascii ''old''" "Path (ascii ''r'')"
      "[(ascii ''a'', False)]" "Path (ascii ''/'')" "Some (ascii ''x'')" "Path (ascii ''/r/a'')"] h2
  show ?thesis by simp
qed

section \<open>The action list depends on root, entries and base only\<close>

text \<open>
  C10, as stated, fails: of two runs with the same root, entries and base, one can end
  in an error and return no list. Where \<open>/r\<close> is a file the run raises
  \<open>FileExistsError\<close>; from the file system with the root only it returns one action.
\<close>

theorem C10_one_run_raises:
  "snd (create_scaffold (Path (ascii ''r'')) [] (Path (ascii ''/'')) False False None fs_root_is_file)
     = Inl FileExistsError
   \<and> snd (create_scaffold (Path (ascii ''r'')) [] (Path (ascii ''/'')) False False None fs_root)
     = Inr [(ascii ''mkdir'', ascii ''/r'')]"
  by (simp add: fs_root_def fs_root_is_file_def fs_defs str_defs path_defs)

text \<open>
  C10, amended. Any two runs that agree on root, entries and base and both return an
  action list return the same list, whatever the dry and force switches, the default
  content and the starting states are. The list is the planned one: the \<open>mkdir\<close> of the
  root and one action for every entry, so a file whose write is skipped has its touch
  action in it.
\<close>

theorem C10_actions_from_arguments:
  "snd (create_scaffold root entries base_root dry1 force1 c1 s1) = Inr acts1
   \<and> snd (create_scaffold root entries base_root dry2 force2 c2 s2) = Inr acts2
   \<longrightarrow> acts1 = acts2 \<and> acts1 = planned_actions root entries base_root"
  by (auto dest: create_scaffold_actions)

theorem C10_actions_from_arguments_witness:
  "snd (create_scaffold (Path (ascii ''r'')) [(ascii ''a'', False)] (Path (ascii ''/''))
          False False (Some (ascii ''x'')) fs_with_file)
     = Inr [(ascii ''mkdir'', ascii ''/r''), (ascii ''touch'', ascii ''/r/a'')]
   \<and> fst (create_scaffold (Path (ascii ''r'')) [(ascii ''a'', False)] (Path (ascii ''/''))
          False False (Some (ascii ''x'')) fs_with_file) = fs_with_file
   \<and> snd (create_scaffold (Path (ascii ''r'')) [(ascii ''a'', False)] (Path (ascii ''/''))
          True True None fs_root)
     = Inr [(ascii ''mkdir'', ascii ''/r''), (ascii ''touch'', ascii ''/r/a'')]
   \<and> planned_actions (Path (ascii ''r'')) [(ascii ''a'', False)] (Path (ascii ''/''))
     = [(ascii ''mkdir'', ascii ''/r''), (ascii ''touch'', ascii ''/r/a'')]"
proof -
  have h1: "create_scaffold (Path (ascii ''r'')) [(ascii ''a'', False)] (Path (ascii ''/''))
          False False (Some (ascii ''x'')) fs_with_file
     = (fs_with_file, Inr [(ascii ''mkdir'', ascii ''/r''), (ascii ''touch'', ascii ''/r/a'')])"
    by (simp add: fs_with_file_def fs_defs str_defs path_defs)
  have h2: "snd (create_scaffold (Path (ascii ''r'')) [(ascii ''a'', False)] (Path (ascii ''/''))
          True True None fs_root)
     = Inr [(ascii ''mkdir'', ascii ''/r''), (ascii ''touch'', ascii ''/r/a'')]"
    by (simp add: fs_root_def fs_defs str_defs path_defs)
  from C10_actions_from_arguments [of "Path (ascii ''r'')" "[(ascii ''a'', False)]" "Path (ascii ''/'')"
      False False "Some (ascii ''x'')" fs_with_file
      "[(ascii ''mkdir'', ascii ''/r''), (ascii ''touch'', ascii ''/r/a'')]"
      True True None fs_root "[(ascii ''mkdir'', ascii ''/r''), (ascii ''touch'', ascii ''/r/a'')]"]
    h1 h2
  show ?thesis by simp
qed

end
